theory Spec2Isabelle
  imports Complex_Main
begin

section \<open>Spectral unmixing and tiled segmentation of histology slides\<close>

text \<open>
  A shallow embedding of the slide-segmentation cells of the two work-package notebooks
  (\<^verbatim>\<open>normalise\<close>, \<^verbatim>\<open>spectral_decompose_and_dump_jpeg\<close>, \<^verbatim>\<open>process\<close> and the batch
  call). Arrays are numpy arrays of float64. \<^verbatim>\<open>normalise\<close> is embedded over an arithmetic
  that is a parameter. Its own properties are proved in float64 arithmetic: the finite
  binary64 numbers, the two infinities and NaN, with every sum and quotient rounded to
  nearest, ties to even. The pipeline around it starts from \<^verbatim>\<open>np.linalg.lstsq\<close>, which
  is numpy's and is embedded by its mathematical specification; there the arithmetic is
  exact arithmetic on the reals, with the one non-finite value that finite input can
  produce in it: the NaN of a division \<open>0 / 0\<close>.
\<close>

subsection \<open>Errors\<close>

text \<open>
  The Python exceptions the modelled code can raise. \<open>SlideOpenError\<close> stands for
  whatever the slide constructors raise, \<open>SlideReadError\<close> for a failure of
  \<^verbatim>\<open>get_slide_with_pixel_resolution_in_microns\<close>.
\<close>

datatype error =
    ValueError
  | ZeroDivisionError
  | IndexError
  | NameError
  | SlideOpenError
  | SlideReadError
  | RankDeficient

subsection \<open>float64\<close>

text \<open>
  A float64 is a finite number, an infinity or NaN. The finite numbers that occur are
  the representable ones (\<open>representable\<close> below). The sign of a zero is not kept: the
  two zeros compare equal, and only the sign of a quotient by zero tells them apart.
\<close>

datatype float64 = Finite real | PosInf | NegInf | NaN

text \<open>
  The binary exponent of a number: the \<open>e\<close> between \<open>-1022\<close> and \<open>1023\<close> with
  \<open>2\<^sup>e \<le> |x| < 2\<^sup>e\<^sup>+\<^sup>1\<close>, the least one below that range (zero and the subnormal
  numbers) and the greatest one above it. The search starts at \<open>-1022\<close> and makes at most
  2045 steps.
\<close>

fun exponent_from :: "nat \<Rightarrow> int \<Rightarrow> real \<Rightarrow> int" where
  "exponent_from 0 e x = e"
| "exponent_from (Suc n) e x = (if x < 2 powi (e + 1) then e else exponent_from n (e + 1) x)"

definition exponent :: "real \<Rightarrow> int" where
  "exponent x = exponent_from 2045 (- 1022) \<bar>x\<bar>"

text \<open>The distance of neighbouring float64 numbers around \<open>x\<close>: 53 bits of precision.\<close>

definition ulp :: "real \<Rightarrow> real" where
  "ulp x = 2 powi (exponent x - 52)"

definition round_half_even :: "real \<Rightarrow> int" where
  "round_half_even q =
     (let n = \<lfloor>q\<rfloor>; r = q - of_int n in
      if r < 1 / 2 then n else if 1 / 2 < r then n + 1 else if even n then n else n + 1)"

text \<open>
  Rounding to nearest, ties to even: the multiple of \<open>ulp x\<close> nearest to \<open>x\<close>, and the
  float64 it denotes. A result of magnitude \<open>2\<^sup>1\<^sup>0\<^sup>2\<^sup>4\<close> is an overflow.
\<close>

definition nearest :: "real \<Rightarrow> real" where
  "nearest x = of_int (round_half_even (x / ulp x)) * ulp x"

definition round_float64 :: "real \<Rightarrow> float64" where
  "round_float64 x =
     (let y = nearest x in
      if 2 powi 1024 \<le> y then PosInf else if y \<le> - (2 powi 1024) then NegInf else Finite y)"

definition representable :: "real \<Rightarrow> bool" where
  "representable x = (nearest x = x \<and> \<bar>x\<bar> < 2 powi 1024)"

text \<open>Sum and quotient, IEEE 754; numpy's default error state turns no case into an exception.\<close>

fun f64_add :: "float64 \<Rightarrow> float64 \<Rightarrow> float64" where
  "f64_add (Finite x) (Finite y) = round_float64 (x + y)"
| "f64_add NaN b = NaN"
| "f64_add a NaN = NaN"
| "f64_add PosInf NegInf = NaN"
| "f64_add NegInf PosInf = NaN"
| "f64_add PosInf b = PosInf"
| "f64_add a PosInf = PosInf"
| "f64_add NegInf b = NegInf"
| "f64_add a NegInf = NegInf"

fun f64_div :: "float64 \<Rightarrow> float64 \<Rightarrow> float64" where
  "f64_div (Finite x) (Finite y) =
     (if y = 0 then (if x = 0 then NaN else if 0 < x then PosInf else NegInf)
      else round_float64 (x / y))"
| "f64_div NaN b = NaN"
| "f64_div a NaN = NaN"
| "f64_div (Finite x) b = Finite 0"
| "f64_div PosInf (Finite y) = (if 0 \<le> y then PosInf else NegInf)"
| "f64_div NegInf (Finite y) = (if 0 \<le> y then NegInf else PosInf)"
| "f64_div a b = NaN"

fun f64_abs :: "float64 \<Rightarrow> float64" where
  "f64_abs (Finite x) = Finite \<bar>x\<bar>"
| "f64_abs NaN = NaN"
| "f64_abs a = PosInf"

text \<open>The comparison \<^verbatim>\<open><\<close>: false as soon as one side is NaN.\<close>

fun f64_less :: "float64 \<Rightarrow> float64 \<Rightarrow> bool" where
  "f64_less (Finite x) (Finite y) = (x < y)"
| "f64_less NaN b = False"
| "f64_less a NaN = False"
| "f64_less a NegInf = False"
| "f64_less PosInf b = False"
| "f64_less a b = True"

text \<open>
  \<^verbatim>\<open>F.min()\<close> and \<^verbatim>\<open>F.max()\<close> reduce the buffer with \<^verbatim>\<open>np.minimum\<close> and \<^verbatim>\<open>np.maximum\<close>,
  which return NaN as soon as one argument is NaN.
\<close>

definition f64_minimum :: "float64 \<Rightarrow> float64 \<Rightarrow> float64" where
  "f64_minimum a b = (if a = NaN \<or> b = NaN then NaN else if f64_less b a then b else a)"

definition f64_maximum :: "float64 \<Rightarrow> float64 \<Rightarrow> float64" where
  "f64_maximum a b = (if a = NaN \<or> b = NaN then NaN else if f64_less a b then b else a)"

definition f64_min :: "float64 list \<Rightarrow> float64" where
  "f64_min F = fold (\<lambda>x acc. f64_minimum acc x) (tl F) (hd F)"

definition f64_max :: "float64 list \<Rightarrow> float64" where
  "f64_max F = fold (\<lambda>x acc. f64_maximum acc x) (tl F) (hd F)"

subsection \<open>Array elements in exact arithmetic\<close>

text \<open>An array element: \<open>Some x\<close> is the finite float \<open>x\<close>, \<open>None\<close> is NaN.\<close>

type_synonym npfloat = "real option"

text \<open>Elementwise sum and subtraction; NaN propagates.\<close>

definition np_add :: "npfloat \<Rightarrow> npfloat \<Rightarrow> npfloat" where
  "np_add a b = (case (a, b) of (Some x, Some y) \<Rightarrow> Some (x + y) | _ \<Rightarrow> None)"

definition np_sub :: "npfloat \<Rightarrow> npfloat \<Rightarrow> npfloat" where
  "np_sub a b = (case (a, b) of (Some x, Some y) \<Rightarrow> Some (x - y) | _ \<Rightarrow> None)"

text \<open>
  The quotient. There is no infinity among these elements, and a quotient by zero is
  NaN: where normalise divides by zero, the dividend is zero too (lemma
  \<open>shifted_zero_max\<close>).
\<close>

definition np_div :: "npfloat \<Rightarrow> npfloat \<Rightarrow> npfloat" where
  "np_div a b =
     (case (a, b) of (Some x, Some y) \<Rightarrow> if y = 0 then None else Some (x / y) | _ \<Rightarrow> None)"

definition np_abs :: "npfloat \<Rightarrow> npfloat" where
  "np_abs a = map_option abs a"

text \<open>Comparisons; every comparison with NaN is false.\<close>

definition np_less :: "npfloat \<Rightarrow> npfloat \<Rightarrow> bool" where
  "np_less a b = (case (a, b) of (Some x, Some y) \<Rightarrow> x < y | _ \<Rightarrow> False)"

definition np_lt :: "npfloat \<Rightarrow> real \<Rightarrow> bool" where
  "np_lt a t = (case a of Some x \<Rightarrow> x < t | None \<Rightarrow> False)"

definition np_gt :: "npfloat \<Rightarrow> real \<Rightarrow> bool" where
  "np_gt a t = (case a of Some x \<Rightarrow> t < x | None \<Rightarrow> False)"

text \<open>\<^verbatim>\<open>F.min()\<close> and \<^verbatim>\<open>F.max()\<close>: NaN as soon as one element is NaN.\<close>

definition np_min :: "npfloat list \<Rightarrow> npfloat" where
  "np_min F = (if None \<in> set F then None else Some (Min (set (map the F))))"

definition np_max :: "npfloat list \<Rightarrow> npfloat" where
  "np_max F = (if None \<in> set F then None else Some (Max (set (map the F))))"

subsection \<open>normalise\<close>

text \<open>
  The operations normalise uses, as a record, and the two arithmetics.
\<close>

record 'a arithmetic =
  add_op :: "'a \<Rightarrow> 'a \<Rightarrow> 'a"
  div_op :: "'a \<Rightarrow> 'a \<Rightarrow> 'a"
  abs_op :: "'a \<Rightarrow> 'a"
  less_op :: "'a \<Rightarrow> 'a \<Rightarrow> bool"
  min_op :: "'a list \<Rightarrow> 'a"
  max_op :: "'a list \<Rightarrow> 'a"

definition float64 :: "float64 arithmetic" where
  "float64 = \<lparr> add_op = f64_add, div_op = f64_div, abs_op = f64_abs, less_op = f64_less,
               min_op = f64_min, max_op = f64_max \<rparr>"

definition exact :: "npfloat arithmetic" where
  "exact = \<lparr> add_op = np_add, div_op = np_div, abs_op = np_abs, less_op = np_less,
             min_op = np_min, max_op = np_max \<rparr>"

text \<open>
  \<^verbatim>\<open>
  def normalise(F):
      F += max(np.abs(F.min()), np.abs(F.max()))
      F /= F.max()
      return F
  \<close>
  \<open>normalise_value\<close> is the content of \<open>F\<close> after the two in-place statements, as a
  function of its content before; an array is its flat buffer, since minimum, maximum and
  the two elementwise operations do not look at the shape.
  \<^item> On an empty array \<^verbatim>\<open>F.min()\<close> raises ValueError.
  \<^item> \<^verbatim>\<open>max\<close> is Python's: of two arguments it returns the second if the second is
    greater than the first, and the first otherwise.
  \<^item> If an element is NaN, minimum and maximum are NaN and so is every element after
    the first statement.
  \<^item> If the maximum of the shifted array is zero, every shifted element is zero and
    each quotient is \<open>0 / 0\<close>, which is NaN.
\<close>

definition normalise_value :: "'a arithmetic \<Rightarrow> 'a list \<Rightarrow> error + 'a list" where
  "normalise_value A F =
     (if F = [] then Inl ValueError
      else
        let lo = abs_op A (min_op A F);
            hi = abs_op A (max_op A F);
            m = (if less_op A lo hi then hi else lo);
            shifted = map (\<lambda>x. add_op A x m) F;
            mx = max_op A shifted
        in Inr (map (\<lambda>x. div_op A x mx) shifted))"

text \<open>
  The function itself works in place on the array object it is given and returns that
  same object. Array objects live in a store, a list of buffers addressed by position;
  \<^verbatim>\<open>.copy()\<close> allocates a new buffer.
\<close>

type_synonym ref = nat
type_synonym store = "npfloat list list"

definition copy :: "ref \<Rightarrow> store \<Rightarrow> ref \<times> store" where
  "copy a s = (length s, s @ [s ! a])"

definition normalise :: "ref \<Rightarrow> store \<Rightarrow> error + (ref \<times> store)" where
  "normalise F s =
     (case normalise_value exact (s ! F) of
        Inl e \<Rightarrow> Inl e
      | Inr v \<Rightarrow> Inr (F, s[F := v]))"

text \<open>
  The mask-building statements of \<^verbatim>\<open>spectral_decompose_and_dump_jpeg\<close>, on the store:
  \<^verbatim>\<open>
  DAB = normalise(T_x[0][0].copy())
  BT = normalise(T_x[0][3].copy())
  raw_DAB = DAB - BT
  ... raw_DAB[...] < raw_threshold
  \<close>
  \<open>target\<close> and \<open>background\<close> are the rows \<^verbatim>\<open>T_x[0][0]\<close> and \<^verbatim>\<open>T_x[0][3]\<close>.
\<close>

definition build_mask ::
  "ref \<Rightarrow> ref \<Rightarrow> real \<Rightarrow> store \<Rightarrow> error + ((npfloat list \<times> bool list) \<times> store)" where
  "build_mask target background raw_threshold s =
     (let (c1, s1) = copy target s in
      case normalise c1 s1 of
        Inl e \<Rightarrow> Inl e
      | Inr (DAB, s2) \<Rightarrow>
          let (c2, s3) = copy background s2 in
          (case normalise c2 s3 of
             Inl e \<Rightarrow> Inl e
           | Inr (BT, s4) \<Rightarrow>
               let raw_DAB = map2 np_sub (s4 ! DAB) (s4 ! BT)
               in Inr ((raw_DAB, map (\<lambda>v. np_lt v raw_threshold) raw_DAB), s4)))"

subsection \<open>Arrays of two dimensions\<close>

text \<open>
  A numpy array of two dimensions is its shape and its row-major buffer; a third, channel
  dimension is the element type (a triple). \<^verbatim>\<open>reshape\<close> keeps the buffer and changes the
  shape.
\<close>

record 'a array2 =
  nrows :: nat
  ncols :: nat
  cells :: "'a list"

definition at2 :: "'a array2 \<Rightarrow> nat \<Rightarrow> nat \<Rightarrow> 'a" where
  "at2 A r c = cells A ! (r * ncols A + c)"

text \<open>
  The index pairs \<open>(row, column)\<close> of the slice \<^verbatim>\<open>A[y : y + stride, x : x + stride]\<close> of
  an array of the given height and width, in row-major order: a slice is clipped at the
  array's edges.
\<close>

definition tile_coords :: "nat \<Rightarrow> nat \<Rightarrow> nat \<Rightarrow> nat \<Rightarrow> nat \<Rightarrow> (nat \<times> nat) list" where
  "tile_coords height width stride x y =
     concat (map (\<lambda>r. map (\<lambda>c. (r, c)) [x ..< min (x + stride) width])
                 [y ..< min (y + stride) height])"

definition slice2 :: "'a array2 \<Rightarrow> nat \<Rightarrow> nat \<Rightarrow> nat \<Rightarrow> 'a array2" where
  "slice2 A y x stride =
     \<lparr> nrows = min (y + stride) (nrows A) - y,
       ncols = min (x + stride) (ncols A) - x,
       cells = map (\<lambda>(r, c). at2 A r c) (tile_coords (nrows A) (ncols A) stride x y) \<rparr>"

text \<open>\<^verbatim>\<open>np.mean\<close> of a boolean array: the share of true cells; NaN on an empty array.\<close>

definition np_mean :: "bool list \<Rightarrow> npfloat" where
  "np_mean bs =
     (if bs = [] then None
      else Some (real (length (filter (\<lambda>b. b) bs)) / real (length bs)))"

text \<open>\<^verbatim>\<open>np.arange(0, stop, step)\<close> for a positive integer step.\<close>

definition np_arange :: "nat \<Rightarrow> nat \<Rightarrow> nat list" where
  "np_arange stop step = map (\<lambda>i. i * step) [0 ..< (stop + step - 1) div step]"

subsection \<open>The least-squares fit\<close>

type_synonym vec3 = "real \<times> real \<times> real"
type_synonym mat3 = "vec3 \<times> vec3 \<times> vec3"

text \<open>
  The sensor responses hard-coded in \<^verbatim>\<open>spectral_decompose_and_dump_jpeg\<close>, one row per
  chromophore: DAB, hematoxylin, light source, brain transmission, eosin.
\<close>

definition responses :: "vec3 list" where
  "responses =
     [(7.10357511, 12.61506218, 13.59695489),
      (8.81961536, 10.18302502, 5.08567669),
      (11.02074647, 15.41804066, 12.77042165),
      (17.05035857, 17.64819458, 9.17788779),
      (0.45574971, 4.32897163, 1.68161384)]"

definition dot3 :: "vec3 \<Rightarrow> vec3 \<Rightarrow> real" where
  "dot3 u v = (case (u, v) of ((a, b, c), (d, e, f)) \<Rightarrow> a * d + b * e + c * f)"

text \<open>The pixel \<open>\<Sum>\<^sub>k w\<^sub>k R\<^sub>k\<close> that the weights \<open>w\<close> give to the rows \<open>R\<close>: \<^verbatim>\<open>R.T @ w\<close>.\<close>

definition lincomb :: "real list \<Rightarrow> vec3 list \<Rightarrow> vec3" where
  "lincomb w R =
     (sum_list (map2 (\<lambda>x r. x * fst r) w R),
      sum_list (map2 (\<lambda>x r. x * fst (snd r)) w R),
      sum_list (map2 (\<lambda>x r. x * snd (snd r)) w R))"

text \<open>The 3 by 3 matrix \<^verbatim>\<open>R.T @ R\<close>, its determinant, and Cramer's rule.\<close>

definition gram :: "vec3 list \<Rightarrow> mat3" where
  "gram R =
     (lincomb (map fst R) R,
      lincomb (map (\<lambda>r. fst (snd r)) R) R,
      lincomb (map (\<lambda>r. snd (snd r)) R) R)"

definition det3 :: "mat3 \<Rightarrow> real" where
  "det3 M =
     (case M of ((a, b, c), (d, e, f), (g, h, i)) \<Rightarrow>
        a * (e * i - f * h) - b * (d * i - f * g) + c * (d * h - e * g))"

definition cramer3 :: "mat3 \<Rightarrow> vec3 \<Rightarrow> vec3" where
  "cramer3 M v =
     (case (M, v) of (((a, b, c), (d, e, f), (g, h, i)), (p, q, r)) \<Rightarrow>
        (det3 ((p, b, c), (q, e, f), (r, h, i)) / det3 M,
         det3 ((a, p, c), (d, q, f), (g, r, i)) / det3 M,
         det3 ((a, b, p), (d, e, q), (g, h, r)) / det3 M))"

text \<open>
  \<open>lstsq R T_I\<close> stands for \<^verbatim>\<open>np.linalg.lstsq(R.T, T_I.T, rcond=None)[0]\<close>, where \<open>R\<close> has
  one row of three channels per chromophore and \<open>T_I\<close> one row per pixel: the result has
  one row per chromophore and one column per pixel. numpy is not part of the repository;
  by its documentation the call returns, for each pixel \<open>p\<close>, the weights \<open>w\<close> that
  minimise the distance of \<open>lincomb w R\<close> to \<open>p\<close>, and among those the ones of smallest
  Euclidean norm. With three channels and rows of rank three that solution is
  \<open>w\<^sub>k = R\<^sub>k \<bullet> z\<close> with \<open>(R.T @ R) z = p\<close> (lemmas \<open>min_norm_weights_fit\<close> and
  \<open>min_norm_weights_least\<close>). Rows of lower rank are outside the model
  (\<open>RankDeficient\<close>; numpy answers there too); the hard-coded responses have rank three
  (lemma \<open>responses_full_rank\<close>).
\<close>

definition min_norm_weights :: "vec3 list \<Rightarrow> vec3 \<Rightarrow> real list" where
  "min_norm_weights R p = (let z = cramer3 (gram R) p in map (\<lambda>r. dot3 r z) R)"

definition lstsq :: "vec3 list \<Rightarrow> vec3 list \<Rightarrow> error + real list list" where
  "lstsq R T_I =
     (if det3 (gram R) = 0 then Inl RankDeficient
      else Inr (map (\<lambda>k. map (\<lambda>p. min_norm_weights R p ! k) T_I) [0 ..< length R]))"

subsection \<open>Files\<close>

text \<open>
  The file system is the list of the writes made so far, oldest first: a JPEG crop
  written by \<^verbatim>\<open>io.imwrite\<close> or a density array written by \<^verbatim>\<open>np.save\<close>. Writes are
  taken to succeed.
\<close>

datatype file_content = Jpeg "vec3 array2" | Npy "real array2"

type_synonym files = "(string \<times> file_content) list"

text \<open>The decimal digits of a number, as an f-string prints an int.\<close>

definition digit_char :: "nat \<Rightarrow> char" where
  "digit_char d = ''0123456789'' ! d"

fun string_of_nat :: "nat \<Rightarrow> string" where
  "string_of_nat n =
     (if n < 10 then [digit_char n]
      else string_of_nat (n div 10) @ [digit_char (n mod 10)])"

subsection \<open>spectral_decompose_and_dump_jpeg\<close>

text \<open>
  A slide object is its method \<^verbatim>\<open>get_slide_with_pixel_resolution_in_microns\<close>: from the
  resolution to an image of three channels, or an exception.
\<close>

type_synonym slide = "real \<Rightarrow> error + vec3 array2"

text \<open>
  The tiles in the order the two nested loops visit them, each by its corner \<open>(x, y)\<close>:
  \<^verbatim>\<open>
  for xi, x in enumerate(np.arange(0, xx, stride)):
      for yi, y in enumerate(np.arange(0, yy, stride)):
  \<close>
\<close>

definition tile_grid :: "nat \<Rightarrow> nat \<Rightarrow> nat \<Rightarrow> (nat \<times> nat) list" where
  "tile_grid xx yy stride =
     concat (map (\<lambda>x. map (\<lambda>y. (x, y)) (np_arange yy stride)) (np_arange xx stride))"

text \<open>
  The statistic of a tile in raw mode:
  \<^verbatim>\<open>
  section = raw_DAB[y : y + stride, x : x + stride] < raw_threshold
  ... np.mean(section)
  \<close>
\<close>

definition raw_statistic :: "npfloat array2 \<Rightarrow> nat \<Rightarrow> real \<Rightarrow> nat \<Rightarrow> nat \<Rightarrow> npfloat" where
  "raw_statistic raw_DAB stride raw_threshold x y =
     np_mean (map (\<lambda>v. np_lt v raw_threshold) (cells (slice2 raw_DAB y x stride)))"

text \<open>
  The statistic of a tile in differential mode:
  \<^verbatim>\<open>
  section = raw_DAB[y : y + stride, x : x + stride]
  diff = np.abs(section[:, :, 0].astype(float) - section[:, :, 2].astype(float))
  ... np.sum(diff > threshold) / (stride**2)
  \<close>
\<close>

type_synonym npfloat3 = "npfloat \<times> npfloat \<times> npfloat"

definition diff_statistic :: "npfloat3 array2 \<Rightarrow> nat \<Rightarrow> real \<Rightarrow> nat \<Rightarrow> nat \<Rightarrow> real" where
  "diff_statistic raw_DAB stride threshold x y =
     (let section = cells (slice2 raw_DAB y x stride);
          diff = map (\<lambda>(c0, c1, c2). np_abs (np_sub c0 c2)) section
      in real (length (filter (\<lambda>d. np_gt d threshold) diff)) / real (stride ^ 2))"

text \<open>
  One pass of a loop body on the dump counter and the files: when the tile is included,
  \<^verbatim>\<open>
  io.imwrite(f"{jpeg_dump_path_and_name}{dump_number}.jpg", image[y : y + stride, x : x + stride, :])
  dump_number += 1
  \<close>
\<close>

definition dump_tile ::
  "vec3 array2 \<Rightarrow> nat \<Rightarrow> string \<Rightarrow> (nat \<times> nat \<Rightarrow> bool) \<Rightarrow> nat \<times> nat \<Rightarrow> nat \<times> files \<Rightarrow> nat \<times> files" where
  "dump_tile img stride jpeg_dump_path_and_name included tile st =
     (case (tile, st) of ((x, y), (dump_number, fs)) \<Rightarrow>
        if included tile
        then (dump_number + 1,
              fs @ [(jpeg_dump_path_and_name @ string_of_nat dump_number @ ''.jpg'',
                     Jpeg (slice2 img y x stride))])
        else (dump_number, fs))"

text \<open>
  The unmixing statements: the fit of every pixel to the responses, and the normalised
  DAB and brain-transmission rows. normalise gets copies, so it works on values here;
  the section on the store treats the aliasing.
  \<^verbatim>\<open>
  T_I = image.reshape((image.shape[0] * image.shape[1], 3))
  T_x = np.linalg.lstsq(responses.T, T_I.T, rcond=None)
  DAB = normalise(T_x[0][0].copy())
  BT = normalise(T_x[0][3].copy())
  \<close>
\<close>

definition unmix :: "vec3 array2 \<Rightarrow> error + (npfloat list \<times> npfloat list)" where
  "unmix img =
     (case lstsq responses (cells img) of
        Inl e \<Rightarrow> Inl e
      | Inr T_x \<Rightarrow>
          (case normalise_value exact (map Some (T_x ! 0)) of
             Inl e \<Rightarrow> Inl e
           | Inr DAB \<Rightarrow>
               (case normalise_value exact (map Some (T_x ! 3)) of
                  Inl e \<Rightarrow> Inl e
                | Inr BT \<Rightarrow> Inr (DAB, BT))))"

text \<open>
  The function, as the second notebook has it. \<open>colourmap_1d\<close> is called there and
  defined nowhere in the notebooks, so it is a parameter: from two colours and an array
  to an array of three channels. The result is the densities array, or the exception
  raised, together with the files.
  \<^item> \<^verbatim>\<open>xx / stride\<close> raises ZeroDivisionError when the stride is zero.
  \<^item> \<^verbatim>\<open>densities = np.zeros((y_pass, x_pass))\<close> is returned as it was created: no
    statement of the function assigns to it.
  \<^item> \<^verbatim>\<open>m_DAB.reshape(image.shape[0], image.shape[1], 3)\<close> raises ValueError when the
    colour map did not return one triple per pixel.
\<close>

definition spectral_decompose_and_dump_jpeg ::
  "(vec3 \<Rightarrow> vec3 \<Rightarrow> npfloat list \<Rightarrow> error + npfloat3 list) \<Rightarrow> slide \<Rightarrow> nat \<Rightarrow> bool \<Rightarrow>
   real \<Rightarrow> real \<Rightarrow> real \<Rightarrow> real \<Rightarrow> string \<Rightarrow> files \<Rightarrow> (error + real array2) \<times> files" where
  "spectral_decompose_and_dump_jpeg colourmap_1d slice stride process_raw threshold pc
       raw_threshold raw_pc jpeg_dump_path_and_name fs =
     (case slice 2 of
        Inl e \<Rightarrow> (Inl e, fs)
      | Inr img \<Rightarrow>
          let yy = nrows img; xx = ncols img in
          if stride = 0 then (Inl ZeroDivisionError, fs)
          else
            let x_pass = (xx + stride - 1) div stride;
                y_pass = (yy + stride - 1) div stride;
                densities = \<lparr> nrows = y_pass, ncols = x_pass,
                              cells = replicate (y_pass * x_pass) 0 \<rparr>
            in
            case unmix img of
              Inl e \<Rightarrow> (Inl e, fs)
            | Inr (DAB, BT) \<Rightarrow>
                if process_raw then
                  let raw_DAB = \<lparr> nrows = yy, ncols = xx, cells = map2 np_sub DAB BT \<rparr>;
                      included = (\<lambda>(x, y).
                        np_gt (raw_statistic raw_DAB stride raw_threshold x y) raw_pc)
                  in (Inr densities,
                      snd (fold (dump_tile img stride jpeg_dump_path_and_name included)
                             (tile_grid xx yy stride) (0, fs)))
                else
                  (case colourmap_1d (1, 1, 0) (0, 0, 1) DAB of
                     Inl e \<Rightarrow> (Inl e, fs)
                   | Inr mDAB \<Rightarrow>
                       (case colourmap_1d (1, 1, 0) (0, 0, 1) BT of
                          Inl e \<Rightarrow> (Inl e, fs)
                        | Inr mBT \<Rightarrow>
                            let m_DAB = map2 (\<lambda>(a, b, c) (d, e, f).
                                                (np_sub a d, np_sub b e, np_sub c f)) mDAB mBT
                            in
                            if length m_DAB \<noteq> yy * xx then (Inl ValueError, fs)
                            else
                              let raw_DAB = \<lparr> nrows = yy, ncols = xx, cells = m_DAB \<rparr>;
                                  included = (\<lambda>(x, y).
                                    pc < diff_statistic raw_DAB stride threshold x y)
                              in (Inr densities,
                                  snd (fold (dump_tile img stride jpeg_dump_path_and_name
                                               included)
                                         (tile_grid xx yy stride) (0, fs))))))"

text \<open>
  The function as the first notebook has it: no colour map, \<^verbatim>\<open>raw_DAB\<close> has two
  dimensions in both modes, and the differential loop is the same text. There
  \<^verbatim>\<open>section[:, :, 0]\<close> indexes an array of two dimensions with three indices, which
  raises IndexError in the first pass of the loop body.
\<close>

definition spectral_decompose_and_dump_jpeg_first ::
  "slide \<Rightarrow> nat \<Rightarrow> bool \<Rightarrow> real \<Rightarrow> real \<Rightarrow> real \<Rightarrow> real \<Rightarrow> string \<Rightarrow> files \<Rightarrow>
   (error + real array2) \<times> files" where
  "spectral_decompose_and_dump_jpeg_first slice stride process_raw threshold pc
       raw_threshold raw_pc jpeg_dump_path_and_name fs =
     (case slice 2 of
        Inl e \<Rightarrow> (Inl e, fs)
      | Inr img \<Rightarrow>
          let yy = nrows img; xx = ncols img in
          if stride = 0 then (Inl ZeroDivisionError, fs)
          else
            let x_pass = (xx + stride - 1) div stride;
                y_pass = (yy + stride - 1) div stride;
                densities = \<lparr> nrows = y_pass, ncols = x_pass,
                              cells = replicate (y_pass * x_pass) 0 \<rparr>
            in
            case unmix img of
              Inl e \<Rightarrow> (Inl e, fs)
            | Inr (DAB, BT) \<Rightarrow>
                let raw_DAB = \<lparr> nrows = yy, ncols = xx, cells = map2 np_sub DAB BT \<rparr> in
                if \<not> process_raw then
                  (if tile_grid xx yy stride = [] then (Inr densities, fs)
                   else (Inl IndexError, fs))
                else
                  let included = (\<lambda>(x, y).
                        np_gt (raw_statistic raw_DAB stride raw_threshold x y) raw_pc)
                  in (Inr densities,
                      snd (fold (dump_tile img stride jpeg_dump_path_and_name included)
                             (tile_grid xx yy stride) (0, fs))))"

text \<open>
  \<^verbatim>\<open>colourmap_1d\<close> as the notebooks leave it: no cell defines the name and no import
  brings it, so the evaluation of its call raises NameError.
\<close>

definition colourmap_1d_unbound :: "vec3 \<Rightarrow> vec3 \<Rightarrow> npfloat list \<Rightarrow> error + npfloat3 list" where
  "colourmap_1d_unbound a b F = Inl NameError"

subsection \<open>process and the batch\<close>

text \<open>
  What the cell takes from outside the notebook: the two slide constructors, the base
  name of a normalised path (\<^verbatim>\<open>os.path.basename(os.path.normpath(file))\<close>) and the
  colour map.
\<close>

record env =
  AperioSlide :: "string \<Rightarrow> error + slide"
  SyntheticSlide :: "string \<Rightarrow> error + slide"
  basename_normpath :: "string \<Rightarrow> string"
  colourmap :: "vec3 \<Rightarrow> vec3 \<Rightarrow> npfloat list \<Rightarrow> error + npfloat3 list"

record config =
  dump_path :: string
  map_stride :: nat

record argv =
  slide_file :: string
  condition :: string
  sim :: bool

text \<open>
  \<^verbatim>\<open>
  def process(argv):
      file = argv["file"]; cnd = argv["condition"]; simulated = argv["sim"]
      try:
          file_name = os.path.basename(os.path.normpath(file))
          slide = AperioSlide(file) if not simulated else SyntheticSlide(file)
      except:
          return file
      d = spectral_decompose_and_dump_jpeg(slide, stride=config["map_stride"],
              jpeg_dump_path_and_name=f'{config["dump_path"]}/{cnd}/{file_name}')
      with open(f'{config["dump_path"]}/{cnd}/{file_name}.npy', "wb") as f:
          np.save(f, d)
      return file
  \<close>
  The field \<open>slide_file\<close> is the key \<^verbatim>\<open>"file"\<close>. The other arguments of the call are
  the defaults of the function. The result is the
  value returned, or the exception that leaves the function, together with the files.
\<close>

definition process :: "env \<Rightarrow> config \<Rightarrow> argv \<Rightarrow> files \<Rightarrow> (error + string) \<times> files" where
  "process env config a fs =
     (let file_name = basename_normpath env (slide_file a) in
      case (if \<not> sim a then AperioSlide env (slide_file a) else SyntheticSlide env (slide_file a)) of
        Inl e \<Rightarrow> (Inr (slide_file a), fs)
      | Inr slide \<Rightarrow>
          (case spectral_decompose_and_dump_jpeg (colourmap env) slide (map_stride config)
                  True 0.175 0.0375 (- 0.3) 0.00125
                  (dump_path config @ ''/'' @ condition a @ ''/'' @ file_name) fs of
             (Inl e, fs') \<Rightarrow> (Inl e, fs')
           | (Inr d, fs') \<Rightarrow>
               (Inr (slide_file a),
                fs' @ [(dump_path config @ ''/'' @ condition a @ ''/'' @ file_name @ ''.npy'',
                        Npy d)])))"

text \<open>
  \<^verbatim>\<open>result = pqdm(files_list_and_configuration, process, n_jobs=1)\<close>. pqdm is a library;
  with one job it evaluates the list comprehension \<^verbatim>\<open>[function(a) for a in iterable]\<close>
  under a progress bar. The function is applied to the descriptors in turn; an exception
  that leaves a call leaves the batch: no report is returned and the descriptors after it
  are not processed, while the files written until then stay.
\<close>

fun pqdm :: "'a list \<Rightarrow> ('a \<Rightarrow> files \<Rightarrow> (error + 'b) \<times> files) \<Rightarrow> files \<Rightarrow> (error + 'b list) \<times> files" where
  "pqdm [] f fs = (Inr [], fs)"
| "pqdm (a # as) f fs =
     (case f a fs of
        (Inl e, fs1) \<Rightarrow> (Inl e, fs1)
      | (Inr r, fs1) \<Rightarrow>
          (case pqdm as f fs1 of
             (Inl e, fs2) \<Rightarrow> (Inl e, fs2)
           | (Inr rs, fs2) \<Rightarrow> (Inr (r # rs), fs2)))"

subsection \<open>Notions used to state the properties\<close>

definition shift_of :: "real list \<Rightarrow> real" where
  "shift_of xs = max \<bar>Min (set xs)\<bar> \<bar>Max (set xs)\<bar>"

text \<open>A constant array whose value is not positive: the arrays normalise maps to NaN.\<close>

definition degenerate :: "real list \<Rightarrow> bool" where
  "degenerate xs = (Max (set xs) \<le> 0 \<and> Min (set xs) = Max (set xs))"

definition scaled :: "real list \<Rightarrow> real \<Rightarrow> real" where
  "scaled xs x = (x + shift_of xs) / (Max (set xs) + shift_of xs)"

text \<open>The same two steps in float64: the sum is rounded, and so is the quotient.\<close>

definition shifted64 :: "real list \<Rightarrow> real \<Rightarrow> real" where
  "shifted64 xs x = nearest (x + shift_of xs)"

definition scaled64 :: "real list \<Rightarrow> real \<Rightarrow> real" where
  "scaled64 xs x = nearest (shifted64 xs x / shifted64 xs (Max (set xs)))"

text \<open>
  The activation statistic of every tile, as the function computes it in the mode it
  is called in, or the exception raised before the loops start.
\<close>

definition activation ::
  "(vec3 \<Rightarrow> vec3 \<Rightarrow> npfloat list \<Rightarrow> error + npfloat3 list) \<Rightarrow> vec3 array2 \<Rightarrow> nat \<Rightarrow> bool \<Rightarrow>
   real \<Rightarrow> real \<Rightarrow> error + (nat \<times> nat \<Rightarrow> npfloat)" where
  "activation colourmap_1d img stride process_raw threshold raw_threshold =
     (case unmix img of
        Inl e \<Rightarrow> Inl e
      | Inr (DAB, BT) \<Rightarrow>
          if process_raw then
            Inr (\<lambda>(x, y). raw_statistic
                   \<lparr> nrows = nrows img, ncols = ncols img, cells = map2 np_sub DAB BT \<rparr>
                   stride raw_threshold x y)
          else
            (case colourmap_1d (1, 1, 0) (0, 0, 1) DAB of
               Inl e \<Rightarrow> Inl e
             | Inr mDAB \<Rightarrow>
                 (case colourmap_1d (1, 1, 0) (0, 0, 1) BT of
                    Inl e \<Rightarrow> Inl e
                  | Inr mBT \<Rightarrow>
                      let m_DAB = map2 (\<lambda>(a, b, c) (d, e, f).
                                          (np_sub a d, np_sub b e, np_sub c f)) mDAB mBT
                      in
                      if length m_DAB \<noteq> nrows img * ncols img then Inl ValueError
                      else Inr (\<lambda>(x, y). Some (diff_statistic
                             \<lparr> nrows = nrows img, ncols = ncols img, cells = m_DAB \<rparr>
                             stride threshold x y)))))"

text \<open>
  The crops of a list of tiles, numbered from \<open>n\<close> in the order of the list: file name
  and content.
\<close>

definition crops :: "vec3 array2 \<Rightarrow> nat \<Rightarrow> string \<Rightarrow> nat \<Rightarrow> (nat \<times> nat) list \<Rightarrow> files" where
  "crops img stride name n tiles =
     map (\<lambda>(k, (x, y)). (name @ string_of_nat k @ ''.jpg'', Jpeg (slice2 img y x stride)))
       (List.enumerate n tiles)"

text \<open>The order of the scan: \<open>x\<close> first, then \<open>y\<close>.\<close>

definition scan_before :: "nat \<times> nat \<Rightarrow> nat \<times> nat \<Rightarrow> bool" where
  "scan_before t1 t2 = (fst t1 < fst t2 \<or> (fst t1 = fst t2 \<and> snd t1 < snd t2))"

text \<open>A 3 by 3 matrix applied to a vector, and sums over lists of weights.\<close>

definition mat3_vec :: "mat3 \<Rightarrow> vec3 \<Rightarrow> vec3" where
  "mat3_vec M z = (case M of (r1, r2, r3) \<Rightarrow> (dot3 r1 z, dot3 r2 z, dot3 r3 z))"

definition sq_norm :: "real list \<Rightarrow> real" where
  "sq_norm w = sum_list (map (\<lambda>v. v * v) w)"

definition dotl :: "real list \<Rightarrow> real list \<Rightarrow> real" where
  "dotl u v = sum_list (map2 (*) u v)"

section \<open>normalise in exact arithmetic\<close>

lemma normalise_value_exact:
  "normalise_value exact F =
     (if F = [] then Inl ValueError
      else if None \<in> set F then Inr (map (\<lambda>_. None) F)
      else
        let xs = map the F;
            m = max \<bar>Min (set xs)\<bar> \<bar>Max (set xs)\<bar>;
            shifted = map (\<lambda>x. x + m) xs;
            mx = Max (set shifted)
        in Inr (map (\<lambda>x. if mx = 0 then None else Some (x / mx)) shifted))"
proof (cases "F = []")
  case True
  then show ?thesis by (simp add: normalise_value_def)
next
  case ne: False
  show ?thesis
  proof (cases "None \<in> set F")
    case True
    have m: "(if np_less (np_abs (np_min F)) (np_abs (np_max F)) then np_abs (np_max F)
              else np_abs (np_min F)) = None"
      using True by (simp add: np_min_def np_max_def np_abs_def np_less_def)
    have sh: "map (\<lambda>x. np_add x None) F = map (\<lambda>_. None) F"
      by (simp add: np_add_def split: option.splits)
    have mx: "np_max (map (\<lambda>_. None) F) = None"
      using ne by (cases F) (simp_all add: np_max_def)
    have dv: "map (\<lambda>x. np_div x None) (map (\<lambda>_. None) F) = map (\<lambda>_. None) F"
      by (simp add: np_div_def)
    show ?thesis
      using ne True
      by (simp only: normalise_value_def exact_def arithmetic.select_convs Let_def m sh mx dv
            if_False if_True)
  next
    case False
    define xs where "xs = map the F"
    have "Some (the v) = v" if "v \<in> set F" for v
    proof (cases v)
      case None
      then show ?thesis using that False by simp
    qed simp
    then have "map (\<lambda>v. Some (the v)) F = F" by (simp add: map_idI)
    then have F: "F = map Some xs" by (simp add: xs_def comp_def)
    have xs_ne: "xs \<noteq> []" using ne by (simp add: xs_def)
    define s where "s = max \<bar>Min (set xs)\<bar> \<bar>Max (set xs)\<bar>"
    have m: "(if np_less (np_abs (np_min F)) (np_abs (np_max F)) then np_abs (np_max F)
              else np_abs (np_min F)) = Some s"
      using False
      by (simp add: np_min_def np_max_def np_abs_def np_less_def xs_def s_def max_def)
    have sh: "map (\<lambda>x. np_add x (Some s)) F = map Some (map (\<lambda>x. x + s) xs)"
      by (simp add: F np_add_def)
    have mx: "np_max (map Some (map (\<lambda>x. x + s) xs)) = Some (Max (set (map (\<lambda>x. x + s) xs)))"
      by (simp add: np_max_def image_iff comp_def)
    have dv: "map (\<lambda>x. np_div x (Some c)) (map Some ys)
                = map (\<lambda>x. if c = 0 then None else Some (x / c)) ys" for c ys
      by (simp add: np_div_def)
    show ?thesis
      using ne False
      by (simp only: normalise_value_def exact_def arithmetic.select_convs Let_def m sh mx dv
            if_False xs_def[symmetric] s_def[symmetric])
  qed
qed

lemma Max_shift:
  assumes "xs \<noteq> []"
  shows "Max (set (map (\<lambda>x. x + m) xs)) = Max (set xs) + (m::real)"
proof -
  have "mono (\<lambda>x::real. x + m)" by (simp add: mono_def)
  then have "Max (set xs) + m = Max ((\<lambda>x. x + m) ` set xs)"
    using assms by (intro mono_Max_commute) simp_all
  then show ?thesis by simp
qed

lemma shift_nonneg:
  assumes "x \<in> set xs"
  shows "0 \<le> x + shift_of xs"
proof -
  have "Min (set xs) \<le> x" using assms by simp
  moreover have "\<bar>Min (set xs)\<bar> \<le> shift_of xs" by (simp add: shift_of_def)
  ultimately show ?thesis by linarith
qed

lemma shifted_max_zero_iff:
  assumes "xs \<noteq> []"
  shows "Max (set xs) + shift_of xs = 0 \<longleftrightarrow> degenerate xs"
proof -
  have "Min (set xs) \<le> Max (set xs)" using assms by simp
  then show ?thesis
    unfolding shift_of_def degenerate_def by (auto simp: max_def abs_if split: if_splits)
qed

lemma shifted_zero_max:
  assumes "xs \<noteq> []" "Max (set xs) + shift_of xs = 0" "x \<in> set xs"
  shows "x + shift_of xs = 0"
proof -
  have "x \<le> Max (set xs)" using assms(3) by simp
  then show ?thesis using shift_nonneg[OF assms(3)] assms(2) by linarith
qed

lemma normalise_value_finite:
  assumes "xs \<noteq> []"
  shows "normalise_value exact (map Some xs) =
    Inr (map (\<lambda>x. if degenerate xs then None else Some (scaled xs x)) xs)"
proof -
  have a: "None \<notin> set (map Some xs)" by auto
  have b: "map the (map Some xs) = xs" by (simp add: comp_def)
  show ?thesis
    using assms shifted_max_zero_iff[OF assms]
    by (simp only: normalise_value_exact a b Let_def Max_shift[OF assms] shift_of_def[symmetric])
       (simp add: comp_def scaled_def)
qed

section \<open>Rounding to float64\<close>

lemma exponent_from_bounds: "e \<le> exponent_from n e x \<and> exponent_from n e x \<le> e + int n"
  by (induction n e x rule: exponent_from.induct) auto

lemma exponent_from_upper:
  "exponent_from n e x < e + int n \<Longrightarrow> x < 2 powi (exponent_from n e x + 1)"
  by (induction n e x rule: exponent_from.induct) (auto split: if_splits)

lemma exponent_from_lower:
  "e < exponent_from n e x \<Longrightarrow> 2 powi (exponent_from n e x) \<le> x"
proof (induction n e x rule: exponent_from.induct)
  case (1 e x)
  then show ?case by simp
next
  case (2 n e x)
  show ?case
  proof (cases "x < 2 powi (e + 1)")
    case True
    then show ?thesis using 2 by simp
  next
    case False
    show ?thesis
    proof (cases "e + 1 < exponent_from n (e + 1) x")
      case True
      then show ?thesis using 2 False by simp
    next
      case False
      then have "exponent_from n (e + 1) x = e + 1"
        using exponent_from_bounds[of "e + 1" n x] by simp
      then show ?thesis using \<open>\<not> x < 2 powi (e + 1)\<close> by simp
    qed
  qed
qed

lemma exponent_from_mono:
  "x \<le> y \<Longrightarrow> exponent_from n e x \<le> exponent_from n e y"
proof (induction n e x rule: exponent_from.induct)
  case (1 e x)
  then show ?case by simp
next
  case (2 n e x)
  then show ?case
    using exponent_from_bounds[of "e + 1" n y] by auto
qed

lemma exponent_range: "- 1022 \<le> exponent x \<and> exponent x \<le> 1023"
  using exponent_from_bounds[of "- 1022" 2045 "\<bar>x\<bar>"] by (simp add: exponent_def)

lemma exponent_upper: "exponent x < 1023 \<Longrightarrow> \<bar>x\<bar> < 2 powi (exponent x + 1)"
  using exponent_from_upper[of 2045 "- 1022" "\<bar>x\<bar>"] by (simp add: exponent_def)

lemma exponent_lower: "- 1022 < exponent x \<Longrightarrow> 2 powi (exponent x) \<le> \<bar>x\<bar>"
  using exponent_from_lower[of "- 1022" 2045 "\<bar>x\<bar>"] by (simp add: exponent_def)

lemma exponent_mono: "\<bar>x\<bar> \<le> \<bar>y\<bar> \<Longrightarrow> exponent x \<le> exponent y"
  by (simp add: exponent_def exponent_from_mono)

lemma exponent_eq:
  assumes "- 1022 \<le> e" "e \<le> 1023"
    and "e = - 1022 \<or> 2 powi e \<le> \<bar>x\<bar>"
    and "\<bar>x\<bar> < 2 powi (e + 1) \<or> e = 1023"
  shows "exponent x = e"
proof (rule ccontr)
  assume ne: "exponent x \<noteq> e"
  show False
  proof (cases "exponent x < e")
    case True
    then have "exponent x < 1023" using assms(2) by simp
    then have "\<bar>x\<bar> < 2 powi (exponent x + 1)" by (rule exponent_upper)
    also have "(2::real) powi (exponent x + 1) \<le> 2 powi e"
      using True by (intro power_int_increasing) simp_all
    finally have "\<bar>x\<bar> < 2 powi e" .
    moreover have "e \<noteq> - 1022" using True exponent_range[of x] by simp
    ultimately show False using assms(3) by simp
  next
    case False
    then have gt: "e < exponent x" using ne by simp
    then have "- 1022 < exponent x" using assms(1) by simp
    then have "2 powi (exponent x) \<le> \<bar>x\<bar>" by (rule exponent_lower)
    moreover have "(2::real) powi (e + 1) \<le> 2 powi (exponent x)"
      using gt by (intro power_int_increasing) simp_all
    moreover have "e \<noteq> 1023" using gt exponent_range[of x] by simp
    ultimately show False using assms(4) by simp
  qed
qed


lemma round_half_even_of_int [simp]: "round_half_even (of_int k) = k"
  by (simp add: round_half_even_def)

lemma round_half_even_floor: "\<lfloor>q\<rfloor> \<le> round_half_even q \<and> round_half_even q \<le> \<lfloor>q\<rfloor> + 1"
  by (simp add: round_half_even_def Let_def)

lemma round_half_even_mono:
  assumes "p \<le> q"
  shows "round_half_even p \<le> round_half_even q"
proof (cases "\<lfloor>p\<rfloor> = \<lfloor>q\<rfloor>")
  case True
  then show ?thesis using assms by (auto simp: round_half_even_def Let_def)
next
  case False
  have "\<lfloor>p\<rfloor> \<le> \<lfloor>q\<rfloor>" using assms by (rule floor_mono)
  then have "\<lfloor>p\<rfloor> + 1 \<le> \<lfloor>q\<rfloor>" using False by simp
  then show ?thesis
    using round_half_even_floor[of p] round_half_even_floor[of q] by linarith
qed

lemma ulp_pos: "0 < ulp x"
  by (simp add: ulp_def)

lemma nearest_mono_same:
  assumes "x \<le> y" "exponent x = exponent y"
  shows "nearest x \<le> nearest y"
proof -
  have u: "ulp x = ulp y" using assms(2) by (simp add: ulp_def)
  have "x / ulp y \<le> y / ulp y" using assms(1) ulp_pos[of y] by (simp add: divide_right_mono)
  then have "round_half_even (x / ulp y) \<le> round_half_even (y / ulp y)"
    by (rule round_half_even_mono)
  then show ?thesis using ulp_pos[of y] by (simp add: nearest_def u)
qed

lemma two_powi_split: "(2::real) powi e = 2 powi (e - 52) * 2 ^ 52"
proof -
  have "(2::real) powi e = 2 powi ((e - 52) + 52)" by simp
  also have "\<dots> = 2 powi (e - 52) * 2 powi 52" by (subst power_int_add) simp_all
  finally show ?thesis by simp
qed

lemma round_half_even_ge: "of_int k \<le> q \<Longrightarrow> k \<le> round_half_even q"
  using round_half_even_mono[of "of_int k" q] by simp

lemma round_half_even_le: "q \<le> of_int k \<Longrightarrow> round_half_even q \<le> k"
  using round_half_even_mono[of q "of_int k"] by simp

lemma two_powi_ulp: "(2::real) powi (exponent x) = of_int (2 ^ 52) * ulp x"
  using two_powi_split[of "exponent x"] by (simp add: ulp_def)

lemma two_powi_Suc: "(2::real) powi (e + 1) = 2 * 2 powi e"
  by (subst power_int_add) simp_all

lemma nearest_lower:
  assumes "0 \<le> x" "- 1022 < exponent x"
  shows "2 powi (exponent x) \<le> nearest x"
proof -
  have "of_int (2 ^ 52) * ulp x \<le> x"
    using exponent_lower[OF assms(2)] assms(1) by (simp only: two_powi_ulp abs_of_nonneg)
  then have "of_int (2 ^ 52) \<le> x / ulp x"
    using ulp_pos[of x] by (simp only: pos_le_divide_eq)
  then have "2 ^ 52 \<le> round_half_even (x / ulp x)"
    by (rule round_half_even_ge)
  then have "(of_int (2 ^ 52) :: real) \<le> of_int (round_half_even (x / ulp x))"
    by (simp only: of_int_le_iff)
  then have "of_int (2 ^ 52) * ulp x \<le> of_int (round_half_even (x / ulp x)) * ulp x"
    using ulp_pos[of x] by (simp only: mult_le_cancel_right_pos)
  then show ?thesis by (simp only: two_powi_ulp nearest_def)
qed

lemma nearest_upper:
  assumes "0 \<le> x" "exponent x < 1023"
  shows "nearest x \<le> 2 powi (exponent x + 1)"
proof -
  have e: "(2::real) powi (exponent x + 1) = of_int (2 ^ 53) * ulp x"
    by (simp add: two_powi_Suc two_powi_ulp)
  have "x \<le> of_int (2 ^ 53) * ulp x"
    using exponent_upper[OF assms(2)] assms(1) by (simp only: e abs_of_nonneg)
  then have "x / ulp x \<le> of_int (2 ^ 53)"
    using ulp_pos[of x] by (simp only: pos_divide_le_eq)
  then have "round_half_even (x / ulp x) \<le> 2 ^ 53"
    by (rule round_half_even_le)
  then have "(of_int (round_half_even (x / ulp x)) :: real) \<le> of_int (2 ^ 53)"
    by (simp only: of_int_le_iff)
  then have "of_int (round_half_even (x / ulp x)) * ulp x \<le> of_int (2 ^ 53) * ulp x"
    using ulp_pos[of x] by (simp only: mult_le_cancel_right_pos)
  then show ?thesis by (simp only: e nearest_def)
qed

lemma nearest_mono:
  assumes "0 \<le> x" "x \<le> y"
  shows "nearest x \<le> nearest y"
proof (cases "exponent x = exponent y")
  case True
  then show ?thesis using assms(2) by (intro nearest_mono_same)
next
  case False
  have y: "0 \<le> y" using assms by simp
  have "exponent x \<le> exponent y" using assms by (intro exponent_mono) simp
  then have lt: "exponent x < exponent y" using False by simp
  have "exponent x < 1023" using lt exponent_range[of y] by simp
  then have "nearest x \<le> 2 powi (exponent x + 1)" using assms(1) by (intro nearest_upper)
  also have "(2::real) powi (exponent x + 1) \<le> 2 powi (exponent y)"
    using lt by (intro power_int_increasing) simp_all
  also have "\<dots> \<le> nearest y"
    using lt exponent_range[of x] y by (intro nearest_lower) simp_all
  finally show ?thesis .
qed


lemma nearest_by_exponent:
  "exponent x = e \<Longrightarrow>
     nearest x = of_int (round_half_even (x / 2 powi (e - 52))) * 2 powi (e - 52)"
  by (simp add: nearest_def ulp_def)

lemma nearest_on_grid:
  assumes "exponent x = e" "x = of_int k * 2 powi (e - 52)"
  shows "nearest x = x"
proof -
  have "x / 2 powi (e - 52) = of_int k" using assms(2) by simp
  then show ?thesis using assms by (simp add: nearest_by_exponent)
qed

lemma nearest_0: "nearest 0 = 0"
  using round_half_even_of_int[of 0] by (simp add: nearest_def)

lemma exponent_1: "exponent 1 = 0"
  by (rule exponent_eq) simp_all

lemma nearest_1: "nearest 1 = 1"
  by (rule nearest_on_grid[OF exponent_1, of "2 ^ 52"]) simp

lemma exponent_least: "exponent (2 powi (- 1074)) = - 1022"
  by (rule exponent_eq) simp_all

lemma nearest_least: "nearest (2 powi (- 1074)) = 2 powi (- 1074)"
  by (rule nearest_on_grid[OF exponent_least, of 1]) simp

lemma nearest_nonneg: "0 \<le> x \<Longrightarrow> 0 \<le> nearest x"
  using nearest_mono[of 0 x] by (simp add: nearest_0)


lemma representable_grid:
  assumes "representable x"
  shows "\<exists>k :: int. x = of_int k * 2 powi (- 1074)"
proof -
  define e where "e = exponent x"
  have e: "- 1022 \<le> e" using exponent_range[of x] by (simp add: e_def)
  have "(2::real) powi (e - 52) = 2 powi ((e + 1022) + (- 1074))" by simp
  also have "\<dots> = 2 powi (e + 1022) * 2 powi (- 1074)" by (subst power_int_add) simp_all
  also have "(2::real) powi (e + 1022) = of_int (2 ^ nat (e + 1022))"
    using e by (simp add: power_int_def)
  finally have u: "ulp x = of_int (2 ^ nat (e + 1022)) * 2 powi (- 1074)"
    by (simp add: ulp_def e_def)
  have "x = of_int (round_half_even (x / ulp x)) * ulp x"
    using assms by (simp add: representable_def nearest_def)
  then have "x = of_int (round_half_even (x / ulp x) * 2 ^ nat (e + 1022)) * 2 powi (- 1074)"
    by (simp add: u)
  then show ?thesis by (rule exI)
qed

lemma representable_gap:
  assumes "representable a" "representable b" "a < b"
  shows "2 powi (- 1074) \<le> b - a"
proof -
  obtain j :: int where j: "a = of_int j * 2 powi (- 1074)"
    using representable_grid[OF assms(1)] by (rule exE)
  obtain k :: int where k: "b = of_int k * 2 powi (- 1074)"
    using representable_grid[OF assms(2)] by (rule exE)
  have p: "(0::real) < 2 powi (- 1074)" by simp
  have "(of_int j :: real) < of_int k" using assms(3) p unfolding j k by (simp only: mult_less_cancel_right_pos)
  then have "j + 1 \<le> k" by simp
  then have "(of_int (j + 1) :: real) \<le> of_int k" by (simp only: of_int_le_iff)
  then have "of_int (j + 1) * 2 powi (- 1074) \<le> of_int k * (2::real) powi (- 1074)"
    using p by (simp only: mult_le_cancel_right_pos)
  then show ?thesis unfolding j k by (simp add: algebra_simps)
qed

lemma round_half_even_below_half:
  assumes "q < of_int k + 1 / 2"
  shows "round_half_even q \<le> k"
proof (cases "\<lfloor>q\<rfloor> < k")
  case True
  then show ?thesis using round_half_even_floor[of q] by simp
next
  case False
  have "\<lfloor>q\<rfloor> \<le> k" using assms by (simp add: floor_le_iff)
  then have f: "\<lfloor>q\<rfloor> = k" using False by simp
  then have "q - of_int \<lfloor>q\<rfloor> < 1 / 2" using assms by simp
  then show ?thesis using f by (simp add: round_half_even_def Let_def)
qed

lemma nearest_below_overflow:
  assumes "0 \<le> x" "x < 2 powi 1024 - 2 powi 970"
  shows "nearest x < 2 powi 1024"
proof (cases "exponent x < 1023")
  case True
  have "nearest x \<le> 2 powi (exponent x + 1)" using assms(1) True by (rule nearest_upper)
  also have "(2::real) powi (exponent x + 1) \<le> 2 powi 1023"
    using True by (intro power_int_increasing) simp_all
  also have "\<dots> < 2 powi 1024" by simp
  finally show ?thesis .
next
  case False
  then have e: "exponent x = 1023" using exponent_range[of x] by simp
  have u: "ulp x = 2 powi 971" by (simp add: ulp_def e)
  have "x / 2 powi 971 < (2 powi 1024 - 2 powi 970) / 2 powi 971"
    using assms(2) by (simp only: divide_strict_right_mono zero_less_power_int zero_less_numeral)
  also have "((2::real) powi 1024 - 2 powi 970) / 2 powi 971 = of_int (2 ^ 53 - 1) + 1 / 2"
    by simp
  finally have "round_half_even (x / ulp x) \<le> 2 ^ 53 - 1"
    unfolding u by (rule round_half_even_below_half)
  then have "(of_int (round_half_even (x / ulp x)) :: real) \<le> of_int (2 ^ 53 - 1)"
    by (simp only: of_int_le_iff)
  then have "of_int (round_half_even (x / ulp x)) * ulp x \<le> of_int (2 ^ 53 - 1) * ulp x"
    using ulp_pos[of x] by (simp only: mult_le_cancel_right_pos)
  also have "of_int (2 ^ 53 - 1) * ulp x < 2 powi 1024" unfolding u by simp
  finally show ?thesis by (simp only: nearest_def)
qed


lemma representable_nearest:
  assumes "0 \<le> x" "nearest x < 2 powi 1024"
  shows "representable (nearest x)"
proof -
  define e where "e = exponent x"
  define v where "v = nearest x"
  have v0: "0 \<le> v" unfolding v_def using assms(1) by (rule nearest_nonneg)
  have er: "- 1022 \<le> e" "e \<le> 1023" using exponent_range[of x] by (simp_all add: e_def)
  have grid: "v = of_int (round_half_even (x / 2 powi (e - 52))) * 2 powi (e - 52)"
    unfolding v_def by (rule nearest_by_exponent) (simp add: e_def)
  have low: "e = - 1022 \<or> 2 powi e \<le> \<bar>v\<bar>"
  proof (cases "e = - 1022")
    case False
    then have "- 1022 < exponent x" using er by (simp add: e_def)
    then have "2 powi e \<le> v" unfolding v_def e_def using assms(1) by (intro nearest_lower)
    then show ?thesis using v0 by simp
  qed simp
  have "nearest v = v"
  proof (cases "v < 2 powi (e + 1)")
    case True
    then have "\<bar>v\<bar> < 2 powi (e + 1) \<or> e = 1023" using v0 by simp
    then have "exponent v = e" using er low by (intro exponent_eq)
    then show ?thesis using grid by (rule nearest_on_grid)
  next
    case False
    have ne: "e \<noteq> 1023" using False assms(2) by (auto simp: v_def)
    then have "exponent x < 1023" using er by (simp add: e_def)
    then have "v \<le> 2 powi (e + 1)" unfolding v_def e_def using assms(1) by (intro nearest_upper)
    then have v: "v = 2 powi (e + 1)" using False by simp
    have "(2::real) powi (e + 1) < 2 powi (e + 1 + 1)"
      by (intro power_int_strict_increasing) simp_all
    then have ex: "exponent v = e + 1"
      using er ne by (intro exponent_eq) (simp_all add: v)
    have "v = of_int (2 ^ 52) * 2 powi (e + 1 - 52)"
      unfolding v using two_powi_split[of "e + 1"] by simp
    with ex show ?thesis by (rule nearest_on_grid)
  qed
  then show ?thesis using assms(2) v0 by (simp add: representable_def v_def)
qed

lemma round_float64_finite:
  assumes "0 \<le> nearest x" "nearest x < 2 powi 1024"
  shows "round_float64 x = Finite (nearest x)"
proof -
  have "- ((2::real) powi 1024) < 0" by simp
  then have "\<not> nearest x \<le> - (2 powi 1024)" using assms(1) by linarith
  then show ?thesis using assms(2) by (simp add: round_float64_def Let_def)
qed

lemma float64_exact:
  assumes "- 1022 \<le> e" "e \<le> 1023" "e = - 1022 \<or> 2 powi e \<le> \<bar>x\<bar>" "\<bar>x\<bar> < 2 powi (e + 1)"
    and "x = of_int k * 2 powi (e - 52)"
  shows "nearest x = x" and "round_float64 x = Finite x" and "representable x"
proof -
  have ex: "exponent x = e" using assms(1,2,3,4) by (intro exponent_eq) simp_all
  show n: "nearest x = x" using ex assms(5) by (rule nearest_on_grid)
  have "(2::real) powi (e + 1) \<le> 2 powi 1024"
    using assms(2) by (intro power_int_increasing) simp_all
  then have b: "\<bar>x\<bar> < 2 powi 1024" using assms(4) by linarith
  then show "round_float64 x = Finite x" by (simp add: round_float64_def n abs_less_iff not_le)
  show "representable x" using n b by (simp add: representable_def)
qed

lemma round_half_even_down:
  assumes "of_int n \<le> q" "q < of_int n + 1 / 2"
  shows "round_half_even q = n"
proof -
  have "\<lfloor>q\<rfloor> = n" using assms by (intro floor_unique) simp_all
  then show ?thesis using assms(2) by (simp add: round_half_even_def Let_def)
qed

lemma float64_round_down:
  assumes "- 1022 \<le> e" "e \<le> 1023" "e = - 1022 \<or> 2 powi e \<le> \<bar>x\<bar>" "\<bar>x\<bar> < 2 powi (e + 1)"
    and "of_int n * 2 powi (e - 52) \<le> x" "x < (of_int n + 1 / 2) * 2 powi (e - 52)"
    and "0 \<le> n" "of_int n * 2 powi (e - 52) < (2::real) powi 1024"
  shows "round_float64 x = Finite (of_int n * 2 powi (e - 52))"
proof -
  have ex: "exponent x = e" using assms(1,2,3,4) by (intro exponent_eq) simp_all
  have p: "(0::real) < 2 powi (e - 52)" by simp
  have "of_int n \<le> x / 2 powi (e - 52)" using assms(5) p by (simp only: pos_le_divide_eq)
  moreover have "x / 2 powi (e - 52) < of_int n + 1 / 2"
    using assms(6) p by (simp only: pos_divide_less_eq)
  ultimately have "round_half_even (x / 2 powi (e - 52)) = n" by (rule round_half_even_down)
  then have n: "nearest x = of_int n * 2 powi (e - 52)" using ex by (simp add: nearest_by_exponent)
  have "0 \<le> nearest x" unfolding n using assms(7) by simp
  then show ?thesis unfolding n[symmetric] using assms(8)[folded n] by (rule round_float64_finite)
qed

section \<open>normalise in float64\<close>

lemma fold_f64_minimum:
  "fold (\<lambda>x acc. f64_minimum acc x) (map Finite xs) (Finite a) = Finite (Min (insert a (set xs)))"
proof (induction xs arbitrary: a)
  case Nil
  then show ?case by simp
next
  case (Cons x xs)
  have "f64_minimum (Finite a) (Finite x) = Finite (min a x)"
    by (simp add: f64_minimum_def min_def)
  moreover have "Min (insert (min a x) (set xs)) = Min (insert a (insert x (set xs)))"
    by (cases "set xs = {}") (simp_all add: min.assoc)
  ultimately show ?case using Cons.IH[of "min a x"] by simp
qed

lemma fold_f64_maximum:
  "fold (\<lambda>x acc. f64_maximum acc x) (map Finite xs) (Finite a) = Finite (Max (insert a (set xs)))"
proof (induction xs arbitrary: a)
  case Nil
  then show ?case by simp
next
  case (Cons x xs)
  have "f64_maximum (Finite a) (Finite x) = Finite (max a x)"
    by (simp add: f64_maximum_def max_def)
  moreover have "Max (insert (max a x) (set xs)) = Max (insert a (insert x (set xs)))"
    by (cases "set xs = {}") (simp_all add: max.assoc)
  ultimately show ?case using Cons.IH[of "max a x"] by simp
qed

lemma f64_min_Finite: "xs \<noteq> [] \<Longrightarrow> f64_min (map Finite xs) = Finite (Min (set xs))"
  by (cases xs) (simp_all add: f64_min_def fold_f64_minimum)

lemma f64_max_Finite: "xs \<noteq> [] \<Longrightarrow> f64_max (map Finite xs) = Finite (Max (set xs))"
  by (cases xs) (simp_all add: f64_max_def fold_f64_maximum)

lemma shifted64_bounds:
  assumes "x \<in> set xs" "Max (set xs) + shift_of xs < 2 powi 1024 - 2 powi 970"
  shows "0 \<le> shifted64 xs x" "shifted64 xs x \<le> shifted64 xs (Max (set xs))"
    "shifted64 xs x < 2 powi 1024"
proof -
  have n: "0 \<le> x + shift_of xs" using assms(1) by (rule shift_nonneg)
  have le: "x + shift_of xs \<le> Max (set xs) + shift_of xs" using assms(1) by simp
  show "0 \<le> shifted64 xs x" unfolding shifted64_def using n by (rule nearest_nonneg)
  show m: "shifted64 xs x \<le> shifted64 xs (Max (set xs))"
    unfolding shifted64_def using n le by (rule nearest_mono)
  have "0 \<le> Max (set xs) + shift_of xs" using n le by linarith
  then have "shifted64 xs (Max (set xs)) < 2 powi 1024"
    unfolding shifted64_def using assms(2) by (rule nearest_below_overflow)
  then show "shifted64 xs x < 2 powi 1024" using m by linarith
qed

lemma shifted64_max_pos:
  assumes "xs \<noteq> []" "\<forall>x \<in> set xs. representable x"
    and "0 < Max (set xs) \<or> Min (set xs) < Max (set xs)"
  shows "0 < shifted64 xs (Max (set xs))"
proof -
  have bx: "Max (set xs) \<in> set xs" using assms(1) by simp
  have ax: "Min (set xs) \<in> set xs" using assms(1) by simp
  have rb: "representable (Max (set xs))" using assms(2) bx by blast
  have ra: "representable (Min (set xs))" using assms(2) ax by blast
  show ?thesis
  proof (cases "0 < Max (set xs)")
    case True
    have "0 \<le> shift_of xs" by (simp add: shift_of_def)
    then have "Max (set xs) \<le> Max (set xs) + shift_of xs" by simp
    then have "nearest (Max (set xs)) \<le> nearest (Max (set xs) + shift_of xs)"
      using True by (intro nearest_mono) simp_all
    then show ?thesis using rb True by (simp add: shifted64_def representable_def)
  next
    case False
    then have lt: "Min (set xs) < Max (set xs)" using assms(3) by simp
    then have "shift_of xs = - Min (set xs)" using False by (simp add: shift_of_def)
    then have "2 powi (- 1074) \<le> Max (set xs) + shift_of xs"
      using representable_gap[OF ra rb lt] by simp
    then have "nearest (2 powi (- 1074)) \<le> nearest (Max (set xs) + shift_of xs)"
      by (intro nearest_mono) simp_all
    then have "2 powi (- 1074) \<le> shifted64 xs (Max (set xs))"
      by (simp only: nearest_least shifted64_def)
    moreover have "(0::real) < 2 powi (- 1074)" by simp
    ultimately show ?thesis by linarith
  qed
qed

lemma scaled64_range:
  assumes "x \<in> set xs" "\<forall>x \<in> set xs. representable x"
    and "0 < Max (set xs) \<or> Min (set xs) < Max (set xs)"
    and "Max (set xs) + shift_of xs < 2 powi 1024 - 2 powi 970"
  shows "0 \<le> scaled64 xs x \<and> scaled64 xs x \<le> 1"
proof -
  have ne: "xs \<noteq> []" using assms(1) by auto
  note b = shifted64_bounds[OF assms(1,4)]
  note p = shifted64_max_pos[OF ne assms(2,3)]
  have q0: "0 \<le> shifted64 xs x / shifted64 xs (Max (set xs))" using b(1) p by simp
  have q1: "shifted64 xs x / shifted64 xs (Max (set xs)) \<le> 1" using b(2) p by simp
  have "0 \<le> scaled64 xs x" unfolding scaled64_def using q0 by (rule nearest_nonneg)
  moreover have "scaled64 xs x \<le> nearest 1" unfolding scaled64_def using q0 q1 by (rule nearest_mono)
  ultimately show ?thesis by (simp add: nearest_1)
qed

lemma scaled64_mono:
  assumes "x \<in> set xs" "y \<in> set xs" "x \<le> y" "\<forall>x \<in> set xs. representable x"
    and "0 < Max (set xs) \<or> Min (set xs) < Max (set xs)"
    and "Max (set xs) + shift_of xs < 2 powi 1024 - 2 powi 970"
  shows "scaled64 xs x \<le> scaled64 xs y"
proof -
  have ne: "xs \<noteq> []" using assms(1) by auto
  note p = shifted64_max_pos[OF ne assms(4,5)]
  note b = shifted64_bounds[OF assms(1,6)]
  have "0 \<le> x + shift_of xs" using assms(1) by (rule shift_nonneg)
  moreover have "x + shift_of xs \<le> y + shift_of xs" using assms(3) by simp
  ultimately have "shifted64 xs x \<le> shifted64 xs y" unfolding shifted64_def by (rule nearest_mono)
  then have "shifted64 xs x / shifted64 xs (Max (set xs))
               \<le> shifted64 xs y / shifted64 xs (Max (set xs))"
    using p by (simp add: divide_right_mono)
  moreover have "0 \<le> shifted64 xs x / shifted64 xs (Max (set xs))" using b(1) p by simp
  ultimately show ?thesis unfolding scaled64_def by (intro nearest_mono)
qed

lemma scaled64_Max:
  assumes "xs \<noteq> []" "\<forall>x \<in> set xs. representable x"
    and "0 < Max (set xs) \<or> Min (set xs) < Max (set xs)"
  shows "scaled64 xs (Max (set xs)) = 1"
  using shifted64_max_pos[OF assms] by (simp add: scaled64_def nearest_1)

lemma shift_float64:
  assumes "xs \<noteq> []"
  shows "(if f64_less (f64_abs (f64_min (map Finite xs))) (f64_abs (f64_max (map Finite xs)))
          then f64_abs (f64_max (map Finite xs)) else f64_abs (f64_min (map Finite xs)))
         = Finite (shift_of xs)"
  using assms by (simp add: f64_min_Finite f64_max_Finite shift_of_def max_def)

lemma shifted_float64:
  assumes "Max (set xs) + shift_of xs < 2 powi 1024 - 2 powi 970"
  shows "map (\<lambda>x. f64_add (Finite x) (Finite (shift_of xs))) xs = map Finite (map (shifted64 xs) xs)"
proof -
  have "f64_add (Finite x) (Finite (shift_of xs)) = Finite (shifted64 xs x)" if "x \<in> set xs" for x
    using shifted64_bounds[OF that assms]
    by (simp add: round_float64_finite shifted64_def)
  then show ?thesis by simp
qed

lemma max_shifted_float64:
  assumes "xs \<noteq> []" "Max (set xs) + shift_of xs < 2 powi 1024 - 2 powi 970"
  shows "f64_max (map Finite (map (shifted64 xs) xs)) = Finite (shifted64 xs (Max (set xs)))"
proof -
  have bx: "Max (set xs) \<in> set xs" using assms(1) by simp
  have mxs: "Max (set (map (shifted64 xs) xs)) = shifted64 xs (Max (set xs))"
  proof (rule Max_eqI)
    show "finite (set (map (shifted64 xs) xs))" by simp
    show "y \<le> shifted64 xs (Max (set xs))" if "y \<in> set (map (shifted64 xs) xs)" for y
      using that shifted64_bounds(2)[OF _ assms(2)] by auto
    show "shifted64 xs (Max (set xs)) \<in> set (map (shifted64 xs) xs)" using bx by auto
  qed
  have "map (shifted64 xs) xs \<noteq> []" using assms(1) by simp
  then have "f64_max (map Finite (map (shifted64 xs) xs))
               = Finite (Max (set (map (shifted64 xs) xs)))"
    by (rule f64_max_Finite)
  then show ?thesis by (simp only: mxs)
qed

lemma scaled_float64:
  assumes "\<forall>x \<in> set xs. representable x"
    and "0 < Max (set xs) \<or> Min (set xs) < Max (set xs)"
    and "Max (set xs) + shift_of xs < 2 powi 1024 - 2 powi 970"
  shows "map (\<lambda>v. f64_div v (Finite (shifted64 xs (Max (set xs))))) (map Finite (map (shifted64 xs) xs))
           = map Finite (map (scaled64 xs) xs)"
proof -
  have "f64_div (Finite (shifted64 xs x)) (Finite (shifted64 xs (Max (set xs))))
          = Finite (scaled64 xs x)"
    if "x \<in> set xs" for x
  proof -
    have ne: "xs \<noteq> []" using that by auto
    have pos: "0 < shifted64 xs (Max (set xs))" by (rule shifted64_max_pos[OF ne assms(1,2)])
    have r: "0 \<le> scaled64 xs x \<and> scaled64 xs x \<le> 1"
      using that assms by (rule scaled64_range)
    have "(1::real) < 2 powi 1024" by simp
    then have "scaled64 xs x < 2 powi 1024" using r by linarith
    then have "round_float64 (shifted64 xs x / shifted64 xs (Max (set xs))) = Finite (scaled64 xs x)"
      using r unfolding scaled64_def by (intro round_float64_finite) simp_all
    then show ?thesis using pos by simp
  qed
  then show ?thesis by simp
qed

lemma normalise_float64_formula:
  assumes "xs \<noteq> []" "\<forall>x \<in> set xs. representable x"
    and "0 < Max (set xs) \<or> Min (set xs) < Max (set xs)"
    and "Max (set xs) + shift_of xs < 2 powi 1024 - 2 powi 970"
  shows "(let m = Finite (shift_of xs);
              shifted = map (\<lambda>x. f64_add (Finite x) m) xs
          in map (\<lambda>v. f64_div v (f64_max shifted)) shifted)
         = map Finite (map (scaled64 xs) xs)"
  by (simp only: Let_def shifted_float64[OF assms(4)] max_shifted_float64[OF assms(1,4)]
        scaled_float64[OF assms(2,3,4)])

lemma normalise_float64_regular:
  assumes "xs \<noteq> []" "\<forall>x \<in> set xs. representable x"
    and "0 < Max (set xs) \<or> Min (set xs) < Max (set xs)"
    and "Max (set xs) + shift_of xs < 2 powi 1024 - 2 powi 970"
  shows "normalise_value float64 (map Finite xs) = Inr (map Finite (map (scaled64 xs) xs))"
proof -
  have sh: "map (\<lambda>v. f64_add v (Finite (shift_of xs))) (map Finite xs)
              = map Finite (map (shifted64 xs) xs)"
    using shifted_float64[OF assms(4)] by (simp add: comp_def)
  show ?thesis
    using assms(1)
    by (simp only: normalise_value_def float64_def arithmetic.select_convs Let_def
          shift_float64[OF assms(1)] sh max_shifted_float64[OF assms(1,4)]
          scaled_float64[OF assms(2,3,4)] map_is_Nil_conv if_False)
qed

lemma scaled64_representable:
  assumes "x \<in> set xs" "\<forall>x \<in> set xs. representable x"
    and "0 < Max (set xs) \<or> Min (set xs) < Max (set xs)"
    and "Max (set xs) + shift_of xs < 2 powi 1024 - 2 powi 970"
  shows "representable (scaled64 xs x)"
proof -
  have ne: "xs \<noteq> []" using assms(1) by auto
  have pos: "0 < shifted64 xs (Max (set xs))" by (rule shifted64_max_pos[OF ne assms(2,3)])
  have r: "0 \<le> scaled64 xs x \<and> scaled64 xs x \<le> 1" using assms by (rule scaled64_range)
  have "(1::real) < 2 powi 1024" by simp
  then have "scaled64 xs x < 2 powi 1024" using r by linarith
  moreover have "0 \<le> shifted64 xs x / shifted64 xs (Max (set xs))"
    using shifted64_bounds(1)[OF assms(1,4)] pos by simp
  ultimately show ?thesis unfolding scaled64_def by (intro representable_nearest)
qed

lemma scaled64_list_Max:
  assumes "xs \<noteq> []" "\<forall>x \<in> set xs. representable x"
    and "0 < Max (set xs) \<or> Min (set xs) < Max (set xs)"
    and "Max (set xs) + shift_of xs < 2 powi 1024 - 2 powi 970"
  shows "Max (set (map (scaled64 xs) xs)) = 1"
proof (rule Max_eqI)
  show "finite (set (map (scaled64 xs) xs))" by simp
  show "y \<le> 1" if "y \<in> set (map (scaled64 xs) xs)" for y
    using that scaled64_range[OF _ assms(2,3,4)] by auto
  have "Max (set xs) \<in> set xs" using assms(1) by simp
  then have "scaled64 xs (Max (set xs)) \<in> set (map (scaled64 xs) xs)" by auto
  then show "1 \<in> set (map (scaled64 xs) xs)" by (simp only: scaled64_Max[OF assms(1,2,3)])
qed

subsection \<open>Worked arrays\<close>

lemma float64_exact_0:
  "nearest 0 = 0" "round_float64 0 = Finite 0" "representable 0"
proof -
  have a: "((- 1022)::int) = - 1022 \<or> 2 powi (- 1022) \<le> \<bar>0::real\<bar>" by simp
  have b: "\<bar>0::real\<bar> < 2 powi ((- 1022) + 1)" by simp
  have c: "(0::real) = of_int (0) * 2 powi ((- 1022) - 52)" by simp
  show "nearest 0 = 0" by (rule float64_exact(1)[OF _ _ a b c]) simp_all
  show "round_float64 0 = Finite 0" by (rule float64_exact(2)[OF _ _ a b c]) simp_all
  show "representable 0" by (rule float64_exact(3)[OF _ _ a b c]) simp_all
qed

lemma float64_exact_1:
  "nearest 1 = 1" "round_float64 1 = Finite 1" "representable 1"
proof -
  have a: "(0::int) = - 1022 \<or> 2 powi 0 \<le> \<bar>1::real\<bar>" by simp
  have b: "\<bar>1::real\<bar> < 2 powi (0 + 1)" by simp
  have c: "(1::real) = of_int (2 ^ 52) * 2 powi (0 - 52)" by simp
  show "nearest 1 = 1" by (rule float64_exact(1)[OF _ _ a b c]) simp_all
  show "round_float64 1 = Finite 1" by (rule float64_exact(2)[OF _ _ a b c]) simp_all
  show "representable 1" by (rule float64_exact(3)[OF _ _ a b c]) simp_all
qed

lemma float64_exact_2:
  "nearest 2 = 2" "round_float64 2 = Finite 2" "representable 2"
proof -
  have a: "(1::int) = - 1022 \<or> 2 powi 1 \<le> \<bar>2::real\<bar>" by simp
  have b: "\<bar>2::real\<bar> < 2 powi (1 + 1)" by simp
  have c: "(2::real) = of_int (2 ^ 52) * 2 powi (1 - 52)" by simp
  show "nearest 2 = 2" by (rule float64_exact(1)[OF _ _ a b c]) simp_all
  show "round_float64 2 = Finite 2" by (rule float64_exact(2)[OF _ _ a b c]) simp_all
  show "representable 2" by (rule float64_exact(3)[OF _ _ a b c]) simp_all
qed

lemma float64_exact_3:
  "nearest 3 = 3" "round_float64 3 = Finite 3" "representable 3"
proof -
  have a: "(1::int) = - 1022 \<or> 2 powi 1 \<le> \<bar>3::real\<bar>" by simp
  have b: "\<bar>3::real\<bar> < 2 powi (1 + 1)" by simp
  have c: "(3::real) = of_int (3 * 2 ^ 51) * 2 powi (1 - 52)" by simp
  show "nearest 3 = 3" by (rule float64_exact(1)[OF _ _ a b c]) simp_all
  show "round_float64 3 = Finite 3" by (rule float64_exact(2)[OF _ _ a b c]) simp_all
  show "representable 3" by (rule float64_exact(3)[OF _ _ a b c]) simp_all
qed

lemma float64_exact_4:
  "nearest 4 = 4" "round_float64 4 = Finite 4" "representable 4"
proof -
  have a: "(2::int) = - 1022 \<or> 2 powi 2 \<le> \<bar>4::real\<bar>" by simp
  have b: "\<bar>4::real\<bar> < 2 powi (2 + 1)" by simp
  have c: "(4::real) = of_int (2 ^ 52) * 2 powi (2 - 52)" by simp
  show "nearest 4 = 4" by (rule float64_exact(1)[OF _ _ a b c]) simp_all
  show "round_float64 4 = Finite 4" by (rule float64_exact(2)[OF _ _ a b c]) simp_all
  show "representable 4" by (rule float64_exact(3)[OF _ _ a b c]) simp_all
qed

lemma float64_exact_half:
  "nearest (1 / 2) = (1 / 2)" "round_float64 (1 / 2) = Finite (1 / 2)" "representable (1 / 2)"
proof -
  have a: "((- 1)::int) = - 1022 \<or> 2 powi (- 1) \<le> \<bar>(1 / 2)::real\<bar>" by simp
  have b: "\<bar>(1 / 2)::real\<bar> < 2 powi ((- 1) + 1)" by simp
  have c: "((1 / 2)::real) = of_int (2 ^ 52) * 2 powi ((- 1) - 52)" by simp
  show "nearest (1 / 2) = (1 / 2)" by (rule float64_exact(1)[OF _ _ a b c]) simp_all
  show "round_float64 (1 / 2) = Finite (1 / 2)" by (rule float64_exact(2)[OF _ _ a b c]) simp_all
  show "representable (1 / 2)" by (rule float64_exact(3)[OF _ _ a b c]) simp_all
qed

lemma float64_exact_3_4:
  "nearest (3 / 4) = (3 / 4)" "round_float64 (3 / 4) = Finite (3 / 4)" "representable (3 / 4)"
proof -
  have a: "((- 1)::int) = - 1022 \<or> 2 powi (- 1) \<le> \<bar>(3 / 4)::real\<bar>" by simp
  have b: "\<bar>(3 / 4)::real\<bar> < 2 powi ((- 1) + 1)" by simp
  have c: "((3 / 4)::real) = of_int (3 * 2 ^ 51) * 2 powi ((- 1) - 52)" by simp
  show "nearest (3 / 4) = (3 / 4)" by (rule float64_exact(1)[OF _ _ a b c]) simp_all
  show "round_float64 (3 / 4) = Finite (3 / 4)" by (rule float64_exact(2)[OF _ _ a b c]) simp_all
  show "representable (3 / 4)" by (rule float64_exact(3)[OF _ _ a b c]) simp_all
qed

lemma float64_exact_3_2:
  "nearest (3 / 2) = (3 / 2)" "round_float64 (3 / 2) = Finite (3 / 2)" "representable (3 / 2)"
proof -
  have a: "(0::int) = - 1022 \<or> 2 powi 0 \<le> \<bar>(3 / 2)::real\<bar>" by simp
  have b: "\<bar>(3 / 2)::real\<bar> < 2 powi (0 + 1)" by simp
  have c: "((3 / 2)::real) = of_int (3 * 2 ^ 51) * 2 powi (0 - 52)" by simp
  show "nearest (3 / 2) = (3 / 2)" by (rule float64_exact(1)[OF _ _ a b c]) simp_all
  show "round_float64 (3 / 2) = Finite (3 / 2)" by (rule float64_exact(2)[OF _ _ a b c]) simp_all
  show "representable (3 / 2)" by (rule float64_exact(3)[OF _ _ a b c]) simp_all
qed

lemma float64_exact_7_4:
  "nearest (7 / 4) = (7 / 4)" "round_float64 (7 / 4) = Finite (7 / 4)" "representable (7 / 4)"
proof -
  have a: "(0::int) = - 1022 \<or> 2 powi 0 \<le> \<bar>(7 / 4)::real\<bar>" by simp
  have b: "\<bar>(7 / 4)::real\<bar> < 2 powi (0 + 1)" by simp
  have c: "((7 / 4)::real) = of_int (7 * 2 ^ 50) * 2 powi (0 - 52)" by simp
  show "nearest (7 / 4) = (7 / 4)" by (rule float64_exact(1)[OF _ _ a b c]) simp_all
  show "round_float64 (7 / 4) = Finite (7 / 4)" by (rule float64_exact(2)[OF _ _ a b c]) simp_all
  show "representable (7 / 4)" by (rule float64_exact(3)[OF _ _ a b c]) simp_all
qed

lemma float64_exact_7_8:
  "nearest (7 / 8) = (7 / 8)" "round_float64 (7 / 8) = Finite (7 / 8)" "representable (7 / 8)"
proof -
  have a: "((- 1)::int) = - 1022 \<or> 2 powi (- 1) \<le> \<bar>(7 / 8)::real\<bar>" by simp
  have b: "\<bar>(7 / 8)::real\<bar> < 2 powi ((- 1) + 1)" by simp
  have c: "((7 / 8)::real) = of_int (7 * 2 ^ 50) * 2 powi ((- 1) - 52)" by simp
  show "nearest (7 / 8) = (7 / 8)" by (rule float64_exact(1)[OF _ _ a b c]) simp_all
  show "round_float64 (7 / 8) = Finite (7 / 8)" by (rule float64_exact(2)[OF _ _ a b c]) simp_all
  show "representable (7 / 8)" by (rule float64_exact(3)[OF _ _ a b c]) simp_all
qed

lemma float64_exact_m2:
  "nearest (- 2) = (- 2)" "round_float64 (- 2) = Finite (- 2)" "representable (- 2)"
proof -
  have a: "(1::int) = - 1022 \<or> 2 powi 1 \<le> \<bar>(- 2)::real\<bar>" by simp
  have b: "\<bar>(- 2)::real\<bar> < 2 powi (1 + 1)" by simp
  have c: "((- 2)::real) = of_int (- (2 ^ 52)) * 2 powi (1 - 52)" by simp
  show "nearest (- 2) = (- 2)" by (rule float64_exact(1)[OF _ _ a b c]) simp_all
  show "round_float64 (- 2) = Finite (- 2)" by (rule float64_exact(2)[OF _ _ a b c]) simp_all
  show "representable (- 2)" by (rule float64_exact(3)[OF _ _ a b c]) simp_all
qed

lemma float64_exact_tiny1:
  "nearest (2 powi (- 70)) = (2 powi (- 70))" "round_float64 (2 powi (- 70)) = Finite (2 powi (- 70))" "representable (2 powi (- 70))"
proof -
  have a: "((- 70)::int) = - 1022 \<or> 2 powi (- 70) \<le> \<bar>(2 powi (- 70))::real\<bar>" by simp
  have b: "\<bar>(2 powi (- 70))::real\<bar> < 2 powi ((- 70) + 1)" by simp
  have c: "((2 powi (- 70))::real) = of_int (2 ^ 52) * 2 powi ((- 70) - 52)" by simp
  show "nearest (2 powi (- 70)) = (2 powi (- 70))" by (rule float64_exact(1)[OF _ _ a b c]) simp_all
  show "round_float64 (2 powi (- 70)) = Finite (2 powi (- 70))" by (rule float64_exact(2)[OF _ _ a b c]) simp_all
  show "representable (2 powi (- 70))" by (rule float64_exact(3)[OF _ _ a b c]) simp_all
qed

lemma float64_exact_tiny2:
  "nearest (2 powi (- 69)) = (2 powi (- 69))" "round_float64 (2 powi (- 69)) = Finite (2 powi (- 69))" "representable (2 powi (- 69))"
proof -
  have a: "((- 69)::int) = - 1022 \<or> 2 powi (- 69) \<le> \<bar>(2 powi (- 69))::real\<bar>" by simp
  have b: "\<bar>(2 powi (- 69))::real\<bar> < 2 powi ((- 69) + 1)" by simp
  have c: "((2 powi (- 69))::real) = of_int (2 ^ 52) * 2 powi ((- 69) - 52)" by simp
  show "nearest (2 powi (- 69)) = (2 powi (- 69))" by (rule float64_exact(1)[OF _ _ a b c]) simp_all
  show "round_float64 (2 powi (- 69)) = Finite (2 powi (- 69))" by (rule float64_exact(2)[OF _ _ a b c]) simp_all
  show "representable (2 powi (- 69))" by (rule float64_exact(3)[OF _ _ a b c]) simp_all
qed

lemma float64_exact_huge:
  "nearest (2 powi 1023) = (2 powi 1023)" "round_float64 (2 powi 1023) = Finite (2 powi 1023)" "representable (2 powi 1023)"
proof -
  have a: "(1023::int) = - 1022 \<or> 2 powi 1023 \<le> \<bar>(2 powi 1023)::real\<bar>" by simp
  have b: "\<bar>(2 powi 1023)::real\<bar> < 2 powi (1023 + 1)" by simp
  have c: "((2 powi 1023)::real) = of_int (2 ^ 52) * 2 powi (1023 - 52)" by simp
  show "nearest (2 powi 1023) = (2 powi 1023)" by (rule float64_exact(1)[OF _ _ a b c]) simp_all
  show "round_float64 (2 powi 1023) = Finite (2 powi 1023)" by (rule float64_exact(2)[OF _ _ a b c]) simp_all
  show "representable (2 powi 1023)" by (rule float64_exact(3)[OF _ _ a b c]) simp_all
qed

lemma float64_exact_mhuge:
  "nearest (- (2 powi 1023)) = (- (2 powi 1023))" "round_float64 (- (2 powi 1023)) = Finite (- (2 powi 1023))" "representable (- (2 powi 1023))"
proof -
  have a: "(1023::int) = - 1022 \<or> 2 powi 1023 \<le> \<bar>(- (2 powi 1023))::real\<bar>" by simp
  have b: "\<bar>(- (2 powi 1023))::real\<bar> < 2 powi (1023 + 1)" by simp
  have c: "((- (2 powi 1023))::real) = of_int (- (2 ^ 52)) * 2 powi (1023 - 52)" by simp
  show "nearest (- (2 powi 1023)) = (- (2 powi 1023))" by (rule float64_exact(1)[OF _ _ a b c]) simp_all
  show "round_float64 (- (2 powi 1023)) = Finite (- (2 powi 1023))" by (rule float64_exact(2)[OF _ _ a b c]) simp_all
  show "representable (- (2 powi 1023))" by (rule float64_exact(3)[OF _ _ a b c]) simp_all
qed

lemma normalise_float64_example:
  "normalise_value float64 [Finite 0, Finite 1, Finite 2]
     = Inr [Finite (1 / 2), Finite (3 / 4), Finite 1]"
  by (simp add: normalise_value_def float64_def f64_min_def f64_max_def f64_minimum_def
        f64_maximum_def Let_def float64_exact_0 float64_exact_1 float64_exact_2 float64_exact_3
        float64_exact_4 float64_exact_half float64_exact_3_4)

lemma normalise_float64_twice_example:
  "normalise_value float64 [Finite (1 / 2), Finite (3 / 4), Finite 1]
     = Inr [Finite (3 / 4), Finite (7 / 8), Finite 1]"
  by (simp add: normalise_value_def float64_def f64_min_def f64_max_def f64_minimum_def
        f64_maximum_def Let_def float64_exact_1 float64_exact_2 float64_exact_3_2
        float64_exact_7_4 float64_exact_3_4 float64_exact_7_8)

text \<open>
  Rounding makes different elements equal: \<open>2\<^sup>-\<^sup>7\<^sup>0 + 1\<close> and \<open>2\<^sup>-\<^sup>6\<^sup>9 + 1\<close> both round
  to 1.
\<close>

lemma normalise_float64_rounds_example:
  "representable (2 powi (- 70)) \<and> representable (2 powi (- 69)) \<and> representable 1
   \<and> (2 :: real) powi (- 70) < 2 powi (- 69)
   \<and> normalise_value float64 [Finite (2 powi (- 70)), Finite (2 powi (- 69)), Finite 1]
       = Inr [Finite (1 / 2), Finite (1 / 2), Finite 1]"
proof -
  have a: "(0::int) = - 1022 \<or> 2 powi 0 \<le> \<bar>2 powi (- 70) + 1 :: real\<bar>" by simp
  have b: "\<bar>2 powi (- 70) + 1 :: real\<bar> < 2 powi (0 + 1)" by simp
  have c: "of_int (2 ^ 52) * 2 powi (0 - 52) \<le> (2 powi (- 70) + 1 :: real)" by simp
  have d: "(2 powi (- 70) + 1 :: real) < (of_int (2 ^ 52) + 1 / 2) * 2 powi (0 - 52)" by simp
  have r1: "round_float64 (2 powi (- 70) + 1) = Finite 1"
    using float64_round_down[OF _ _ a b c d] by simp
  have a: "(0::int) = - 1022 \<or> 2 powi 0 \<le> \<bar>2 powi (- 69) + 1 :: real\<bar>" by simp
  have b: "\<bar>2 powi (- 69) + 1 :: real\<bar> < 2 powi (0 + 1)" by simp
  have c: "of_int (2 ^ 52) * 2 powi (0 - 52) \<le> (2 powi (- 69) + 1 :: real)" by simp
  have d: "(2 powi (- 69) + 1 :: real) < (of_int (2 ^ 52) + 1 / 2) * 2 powi (0 - 52)" by simp
  have r2: "round_float64 (2 powi (- 69) + 1) = Finite 1"
    using float64_round_down[OF _ _ a b c d] by simp
  have lt: "\<not> (1::real) < 2 powi (- 70)" "\<not> (1::real) < 2 powi (- 69)"
    "(2::real) powi (- 70) < 2 powi (- 69)" "(2::real) powi (- 70) < 1" "(2::real) powi (- 69) < 1"
    by simp_all
  have "normalise_value float64 [Finite (2 powi (- 70)), Finite (2 powi (- 69)), Finite 1]
          = Inr [Finite (1 / 2), Finite (1 / 2), Finite 1]"
    unfolding normalise_value_def float64_def f64_min_def f64_max_def f64_minimum_def
      f64_maximum_def Let_def
    using r1 r2 lt
    by (simp add: float64_exact_1 float64_exact_2 float64_exact_half)
  then show ?thesis
    using float64_exact_tiny1(3) float64_exact_tiny2(3) float64_exact_1(3) lt(3)
    by (intro conjI)
qed

text \<open>
  The shifted maximum overflows: \<open>2\<^sup>1\<^sup>0\<^sup>2\<^sup>3 + 2\<^sup>1\<^sup>0\<^sup>2\<^sup>3\<close> is infinite in float64, and the
  quotient of the infinity by itself is NaN.
\<close>

lemma normalise_float64_overflow_example:
  "representable (2 powi 1023) \<and> representable (- (2 powi 1023))
   \<and> normalise_value float64 [Finite (2 powi 1023), Finite (- (2 powi 1023))]
       = Inr [NaN, Finite 0]"
proof -
  have a: "(1023::int) = - 1022 \<or> 2 powi 1023 \<le> \<bar>2 powi 1023 + 2 powi 1023 :: real\<bar>" by simp
  have "exponent (2 powi 1023 + 2 powi 1023) = 1023"
    using a by (intro exponent_eq) simp_all
  moreover have "(2 powi 1023 + 2 powi 1023 :: real) = of_int (2 ^ 53) * 2 powi (1023 - 52)"
    by simp
  ultimately have "nearest (2 powi 1023 + 2 powi 1023) = 2 powi 1023 + 2 powi 1023"
    by (rule nearest_on_grid)
  then have r1: "round_float64 (2 powi 1023 + 2 powi 1023) = PosInf"
    by (simp add: round_float64_def)
  have "normalise_value float64 [Finite (2 powi 1023), Finite (- (2 powi 1023))]
          = Inr [NaN, Finite 0]"
    unfolding normalise_value_def float64_def f64_min_def f64_max_def f64_minimum_def
      f64_maximum_def Let_def
    using r1 by (simp add: float64_exact_0)
  then show ?thesis
    using float64_exact_huge(3) float64_exact_mhuge(3) by (intro conjI)
qed

subsection \<open>Shift, scale and order\<close>

text \<open>
  C7, as amended. For every non-empty array of finite float64 numbers that is not
  constant with a non-positive value (it has a positive element or two different
  elements) and whose maximum plus \<open>max |min| |max|\<close> is below the overflow threshold
  \<open>2\<^sup>1\<^sup>0\<^sup>2\<^sup>4 - 2\<^sup>9\<^sup>7\<^sup>0\<close>, normalise returns the array shifted by \<open>max |min| |max|\<close> and
  divided by the maximum of the shifted array, every sum and every quotient rounded to
  float64. The values are finite and lie in \<open>[0, 1]\<close>; an element that is not greater
  than another one gets a value that is not greater, and a maximal element gets exactly
  1. Different elements can get the same value (lemma
  \<open>normalise_float64_rounds_example\<close>), and when the shifted maximum overflows the
  result has a NaN (lemma \<open>normalise_float64_overflow_example\<close>).
\<close>

theorem normalise_shift_then_scale:
  assumes "xs \<noteq> []" and "\<forall>x \<in> set xs. representable x"
    and "0 < Max (set xs) \<or> Min (set xs) < Max (set xs)"
    and "Max (set xs) + max \<bar>Min (set xs)\<bar> \<bar>Max (set xs)\<bar> < 2 powi 1024 - 2 powi 970"
  shows "\<exists>gs. normalise_value float64 (map Finite xs) = Inr (map Finite gs)
           \<and> map Finite gs
               = (let m = Finite (max \<bar>Min (set xs)\<bar> \<bar>Max (set xs)\<bar>);
                      shifted = map (\<lambda>x. f64_add (Finite x) m) xs
                  in map (\<lambda>v. f64_div v (f64_max shifted)) shifted)
           \<and> length gs = length xs
           \<and> (\<forall>g \<in> set gs. 0 \<le> g \<and> g \<le> 1)
           \<and> (\<forall>i < length xs. \<forall>j < length xs. xs ! i \<le> xs ! j \<longrightarrow> gs ! i \<le> gs ! j)
           \<and> (\<forall>i < length xs. xs ! i = Max (set xs) \<longrightarrow> gs ! i = 1)"
proof -
  note nov = assms(4)[folded shift_of_def]
  define gs where "gs = map (scaled64 xs) xs"
  have 1: "normalise_value float64 (map Finite xs) = Inr (map Finite gs)"
    unfolding gs_def by (rule normalise_float64_regular[OF assms(1,2,3) nov])
  have 2: "map Finite gs
             = (let m = Finite (max \<bar>Min (set xs)\<bar> \<bar>Max (set xs)\<bar>);
                    shifted = map (\<lambda>x. f64_add (Finite x) m) xs
                in map (\<lambda>v. f64_div v (f64_max shifted)) shifted)"
    unfolding gs_def shift_of_def[symmetric]
    by (rule normalise_float64_formula[OF assms(1,2,3) nov, symmetric])
  have 3: "length gs = length xs" by (simp add: gs_def)
  have 4: "\<forall>g \<in> set gs. 0 \<le> g \<and> g \<le> 1"
    using scaled64_range[OF _ assms(2,3) nov] by (auto simp: gs_def)
  have 5: "\<forall>i < length xs. \<forall>j < length xs. xs ! i \<le> xs ! j \<longrightarrow> gs ! i \<le> gs ! j"
    using scaled64_mono[OF _ _ _ assms(2,3) nov] by (simp add: gs_def)
  have 6: "\<forall>i < length xs. xs ! i = Max (set xs) \<longrightarrow> gs ! i = 1"
    using scaled64_Max[OF assms(1,2,3)] by (simp add: gs_def)
  show ?thesis using 1 2 3 4 5 6 by (intro exI[of _ gs] conjI)
qed

theorem normalise_shift_then_scale_witness:
  "[0, 1, 2] \<noteq> ([] :: real list)
   \<and> representable 0 \<and> representable 1 \<and> representable 2
   \<and> (0 :: real) < Max (set [0, 1, 2])
   \<and> Max (set [0, 1, 2]) + max \<bar>Min (set [0, 1, 2])\<bar> \<bar>Max (set [0, 1, 2])\<bar>
       < (2 :: real) powi 1024 - 2 powi 970
   \<and> (\<exists>gs. normalise_value float64 [Finite 0, Finite 1, Finite 2] = Inr (map Finite gs)
          \<and> (\<forall>g \<in> set gs. 0 \<le> g \<and> g \<le> 1)
          \<and> gs ! 0 \<le> gs ! 1 \<and> gs ! 1 \<le> gs ! 2 \<and> gs ! 2 = 1)
   \<and> normalise_value float64 [Finite 0, Finite 1, Finite 2]
       = Inr [Finite (1 / 2), Finite (3 / 4), Finite 1]"
proof -
  have r: "\<forall>x \<in> set [0, 1, 2 :: real]. representable x"
    by (simp add: float64_exact_0 float64_exact_1 float64_exact_2)
  have d: "0 < Max (set [0, 1, 2 :: real]) \<or> Min (set [0, 1, 2 :: real]) < Max (set [0, 1, 2])"
    by simp
  have v: "Max (set [0, 1, 2]) + max \<bar>Min (set [0, 1, 2])\<bar> \<bar>Max (set [0, 1, 2])\<bar>
             < (2 :: real) powi 1024 - 2 powi 970"
    by simp
  have n: "[0, 1, 2] \<noteq> ([] :: real list)" by simp
  obtain gs where g: "normalise_value float64 (map Finite [0, 1, 2]) = Inr (map Finite gs)"
      "length gs = length [0, 1, 2 :: real]"
      "\<forall>g \<in> set gs. 0 \<le> g \<and> g \<le> 1"
      "\<forall>i < length [0, 1, 2 :: real]. \<forall>j < length [0, 1, 2 :: real].
          [0, 1, 2 :: real] ! i \<le> [0, 1, 2] ! j \<longrightarrow> gs ! i \<le> gs ! j"
      "\<forall>i < length [0, 1, 2 :: real]. [0, 1, 2 :: real] ! i = Max (set [0, 1, 2]) \<longrightarrow> gs ! i = 1"
    using normalise_shift_then_scale[OF n r d v] by blast
  have "gs ! 0 \<le> gs ! 1" using g(4) by simp
  moreover have "gs ! 1 \<le> gs ! 2" using g(4) by simp
  moreover have "gs ! 2 = 1" using g(5) by simp
  ultimately have "\<exists>gs. normalise_value float64 [Finite 0, Finite 1, Finite 2] = Inr (map Finite gs)
          \<and> (\<forall>g \<in> set gs. 0 \<le> g \<and> g \<le> 1)
          \<and> gs ! 0 \<le> gs ! 1 \<and> gs ! 1 \<le> gs ! 2 \<and> gs ! 2 = 1"
    using g(1,3) by (intro exI[of _ gs]) simp
  then show ?thesis
    using normalise_float64_example
    by (simp add: float64_exact_0 float64_exact_1 float64_exact_2)
qed

text \<open>
  C7 as stated fails on a constant array of zeros: the shift is zero, the maximum of
  the shifted array is zero, and every element becomes \<open>0 / 0\<close>, which is NaN and not
  a value of \<open>[0, 1]\<close>.
\<close>

theorem normalise_zero_array_counterexample:
  "representable 0
   \<and> normalise_value float64 [Finite 0, Finite 0] = Inr [NaN, NaN]
   \<and> \<not> (\<exists>gs. normalise_value float64 [Finite 0, Finite 0] = Inr (map Finite gs)
            \<and> (\<forall>g \<in> set gs. 0 \<le> g \<and> g \<le> 1))"
  by (auto simp: normalise_value_def float64_def f64_min_def f64_max_def f64_minimum_def
        f64_maximum_def Let_def float64_exact_0)

text \<open>
  C8, as amended. Under the same conditions normalise applied twice returns an array of
  finite float64 numbers whose maximum is exactly 1, and an element of the input that is
  not greater than another one gets a value that is not greater.
\<close>

theorem normalise_twice:
  assumes "xs \<noteq> []" and "\<forall>x \<in> set xs. representable x"
    and "0 < Max (set xs) \<or> Min (set xs) < Max (set xs)"
    and "Max (set xs) + max \<bar>Min (set xs)\<bar> \<bar>Max (set xs)\<bar> < 2 powi 1024 - 2 powi 970"
  shows "\<exists>once twice.
           normalise_value float64 (map Finite xs) = Inr once
           \<and> normalise_value float64 once = Inr (map Finite twice)
           \<and> f64_max (map Finite twice) = Finite 1
           \<and> length twice = length xs
           \<and> (\<forall>i < length xs. \<forall>j < length xs. xs ! i \<le> xs ! j \<longrightarrow> twice ! i \<le> twice ! j)"
proof -
  note nov = assms(4)[folded shift_of_def]
  define ys where "ys = map (scaled64 xs) xs"
  define zs where "zs = map (scaled64 ys) ys"
  have ys_ne: "ys \<noteq> []" using assms(1) by (simp add: ys_def)
  have ys_rep: "\<forall>y \<in> set ys. representable y"
    using scaled64_representable[OF _ assms(2,3) nov] by (auto simp: ys_def)
  have ys_rng: "\<forall>y \<in> set ys. 0 \<le> y \<and> y \<le> 1"
    using scaled64_range[OF _ assms(2,3) nov] by (auto simp: ys_def)
  have ys_max: "Max (set ys) = 1"
    unfolding ys_def by (rule scaled64_list_Max[OF assms(1,2,3) nov])
  have ys_nd: "0 < Max (set ys) \<or> Min (set ys) < Max (set ys)" by (simp add: ys_max)
  have "Min (set ys) \<in> set ys" using ys_ne by simp
  then have "0 \<le> Min (set ys) \<and> Min (set ys) \<le> 1" using ys_rng by blast
  then have "shift_of ys = 1" by (simp add: shift_of_def ys_max)
  then have ys_nov: "Max (set ys) + shift_of ys < 2 powi 1024 - 2 powi 970"
    by (simp add: ys_max)
  have one: "normalise_value float64 (map Finite xs) = Inr (map Finite ys)"
    unfolding ys_def by (rule normalise_float64_regular[OF assms(1,2,3) nov])
  have two: "normalise_value float64 (map Finite ys) = Inr (map Finite zs)"
    unfolding zs_def by (rule normalise_float64_regular[OF ys_ne ys_rep ys_nd ys_nov])
  have "zs \<noteq> []" using ys_ne by (simp add: zs_def)
  then have "f64_max (map Finite zs) = Finite (Max (set zs))" by (rule f64_max_Finite)
  then have mx: "f64_max (map Finite zs) = Finite 1"
    unfolding zs_def by (simp only: scaled64_list_Max[OF ys_ne ys_rep ys_nd ys_nov])
  have len: "length zs = length xs" by (simp add: zs_def ys_def)
  have ord: "\<forall>i < length xs. \<forall>j < length xs. xs ! i \<le> xs ! j \<longrightarrow> zs ! i \<le> zs ! j"
  proof (intro allI impI)
    fix i j
    assume ij: "i < length xs" "j < length xs" and le: "xs ! i \<le> xs ! j"
    have y: "ys ! i = scaled64 xs (xs ! i)" "ys ! j = scaled64 xs (xs ! j)"
      using ij by (simp_all add: ys_def)
    have z: "zs ! i = scaled64 ys (ys ! i)" "zs ! j = scaled64 ys (ys ! j)"
      using ij by (simp_all add: zs_def ys_def)
    have m: "ys ! i \<in> set ys" "ys ! j \<in> set ys" using ij by (simp_all add: ys_def)
    have "ys ! i \<le> ys ! j"
      unfolding y using ij le by (intro scaled64_mono[OF _ _ _ assms(2,3) nov]) simp_all
    then show "zs ! i \<le> zs ! j"
      unfolding z using m by (intro scaled64_mono[OF _ _ _ ys_rep ys_nd ys_nov])
  qed
  show ?thesis using one two mx len ord by (intro exI[of _ "map Finite ys"] exI[of _ zs] conjI)
qed

theorem normalise_twice_witness:
  "[0, 1, 2] \<noteq> ([] :: real list)
   \<and> representable 0 \<and> representable 1 \<and> representable 2
   \<and> (0 :: real) < Max (set [0, 1, 2])
   \<and> Max (set [0, 1, 2]) + max \<bar>Min (set [0, 1, 2])\<bar> \<bar>Max (set [0, 1, 2])\<bar>
       < (2 :: real) powi 1024 - 2 powi 970
   \<and> normalise_value float64 [Finite 0, Finite 1, Finite 2]
       = Inr [Finite (1 / 2), Finite (3 / 4), Finite 1]
   \<and> normalise_value float64 [Finite (1 / 2), Finite (3 / 4), Finite 1]
       = Inr [Finite (3 / 4), Finite (7 / 8), Finite 1]
   \<and> f64_max [Finite (3 / 4), Finite (7 / 8), Finite 1] = Finite 1"
proof -
  have r: "\<forall>x \<in> set [0, 1, 2 :: real]. representable x"
    by (simp add: float64_exact_0 float64_exact_1 float64_exact_2)
  have d: "0 < Max (set [0, 1, 2 :: real]) \<or> Min (set [0, 1, 2 :: real]) < Max (set [0, 1, 2])"
    by simp
  have v: "Max (set [0, 1, 2]) + max \<bar>Min (set [0, 1, 2])\<bar> \<bar>Max (set [0, 1, 2])\<bar>
             < (2 :: real) powi 1024 - 2 powi 970"
    by simp
  have n: "[0, 1, 2] \<noteq> ([] :: real list)" by simp
  obtain once twice where t:
      "normalise_value float64 (map Finite [0, 1, 2]) = Inr once"
      "normalise_value float64 once = Inr (map Finite twice)"
      "f64_max (map Finite twice) = Finite 1"
    using normalise_twice[OF n r d v] by blast
  have o: "once = [Finite (1 / 2), Finite (3 / 4), Finite 1]"
    using t(1) normalise_float64_example by simp
  have "map Finite twice = [Finite (3 / 4), Finite (7 / 8), Finite 1]"
    using t(2) normalise_float64_twice_example unfolding o by simp
  then have "f64_max [Finite (3 / 4), Finite (7 / 8), Finite 1] = Finite 1"
    using t(3) by simp
  then show ?thesis
    using normalise_float64_example normalise_float64_twice_example
    by (simp add: float64_exact_0 float64_exact_1 float64_exact_2)
qed

text \<open>
  C8 as stated fails on a constant negative array: the first call already returns NaN
  in every cell, the second keeps them, and the maximum of the result is NaN, not 1.
\<close>

theorem normalise_twice_counterexample:
  "representable (- 2)
   \<and> normalise_value float64 [Finite (- 2), Finite (- 2)] = Inr [NaN, NaN]
   \<and> normalise_value float64 [NaN, NaN] = Inr [NaN, NaN]
   \<and> f64_max [NaN, NaN] \<noteq> Finite 1"
  by (simp add: normalise_value_def float64_def f64_min_def f64_max_def f64_minimum_def
        f64_maximum_def Let_def float64_exact_0 float64_exact_m2)

section \<open>The mask-building step and the store\<close>

lemma normalise_fresh:
  "normalise (length s) (s @ [v]) =
     (case normalise_value exact v of Inl e \<Rightarrow> Inl e | Inr w \<Rightarrow> Inr (length s, s @ [w]))"
  by (simp add: normalise_def split: sum.splits)

text \<open>
  C9, as amended. The mask-building statements leave every array that existed before
  them unchanged, because they hand normalise copies: the store afterwards is the store
  before with two new arrays appended. Their result is a function of the contents of the
  two input rows and of the threshold alone. normalise itself overwrites the array it is
  given.
\<close>

theorem build_mask_pure:
  assumes "target < length s" and "background < length s"
  shows "build_mask target background raw_threshold s =
           (case normalise_value exact (s ! target) of
              Inl e \<Rightarrow> Inl e
            | Inr DAB \<Rightarrow>
                (case normalise_value exact (s ! background) of
                   Inl e \<Rightarrow> Inl e
                 | Inr BT \<Rightarrow>
                     Inr ((map2 np_sub DAB BT,
                           map (\<lambda>v. np_lt v raw_threshold) (map2 np_sub DAB BT)),
                          s @ [DAB, BT])))"
proof (cases "normalise_value exact (s ! target)")
  case (Inl e)
  then show ?thesis by (simp add: build_mask_def copy_def normalise_fresh)
next
  case d: (Inr DAB)
  show ?thesis
  proof (cases "normalise_value exact (s ! background)")
    case (Inl e)
    then show ?thesis
      using d assms normalise_fresh[of "s @ [DAB]"]
      by (simp add: build_mask_def copy_def normalise_fresh nth_append)
  next
    case (Inr BT)
    then show ?thesis
      using d assms normalise_fresh[of "s @ [DAB]"]
      by (simp add: build_mask_def copy_def normalise_fresh nth_append)
  qed
qed

theorem build_mask_pure_witness:
  "(0::nat) < length [[Some 1, Some 3], [Some 2, Some (-2 :: real)]]
   \<and> (1::nat) < length [[Some 1, Some 3], [Some 2, Some (-2 :: real)]]
   \<and> build_mask 0 1 (- 3 / 10) [[Some 1, Some 3], [Some 2, Some (-2)]]
       = Inr (([Some (- 1 / 3), Some 1], [True, False]),
              [[Some 1, Some 3], [Some 2, Some (-2)], [Some (2 / 3), Some 1], [Some 1, Some 0]])"
  using build_mask_pure[of 0 "[[Some 1, Some 3], [Some 2, Some (-2)]]" 1 "- 3 / 10"]
  by (simp add: normalise_value_exact np_sub_def np_lt_def)

text \<open>
  C9 as stated fails for normalise: after the call the array passed in holds the
  normalised values, not the values it was called with.
\<close>

theorem normalise_mutates_counterexample:
  "normalise 0 [[Some 1, Some 3]] = Inr (0, [[Some (2 / 3), Some 1]])
   \<and> [[Some (2 / 3), Some 1]] ! 0 \<noteq> [[Some 1, Some (3 :: real)]] ! 0"
  by (simp add: normalise_def normalise_value_exact)

section \<open>The tile grid\<close>

lemma ceil_div_less_iff:
  assumes "0 < (S::nat)"
  shows "i < (W + S - 1) div S \<longleftrightarrow> i * S < W"
proof -
  have "(W + S - 1) div S < Suc i \<longleftrightarrow> W + S - 1 < Suc i * S"
    using assms by (simp add: div_less_iff_less_mult)
  also have "\<dots> \<longleftrightarrow> W \<le> i * S" using assms by auto
  finally show ?thesis by auto
qed

lemma ceiling_as_div:
  assumes "0 < (S::nat)"
  shows "nat \<lceil>real W / real S\<rceil> = (W + S - 1) div S"
proof -
  define q where "q = (W + S - 1) div S"
  have up: "W \<le> q * S"
    using ceil_div_less_iff[OF assms, of q W] by (simp add: q_def)
  have lo: "(q - 1) * S < W" if "0 < q"
    using ceil_div_less_iff[OF assms, of "q - 1" W] that by (simp add: q_def)
  have "\<lceil>real W / real S\<rceil> = int q"
  proof (rule ceiling_unique)
    show "real W / real S \<le> of_int (int q)"
      using up assms by (simp add: divide_le_eq flip: of_nat_mult)
    show "of_int (int q) - 1 < real W / real S"
    proof (cases "0 < q")
      case True
      then have "real ((q - 1) * S) < real W" using lo by (simp only: of_nat_less_iff)
      then have "(real q - 1) * real S < real W" using True by (simp add: of_nat_diff)
      then show ?thesis using assms by (simp add: less_divide_eq)
    next
      case False
      have "0 \<le> real W / real S" by simp
      then have "- 1 < real W / real S" by linarith
      then show ?thesis using False by simp
    qed
  qed
  then show ?thesis by (simp add: q_def)
qed

lemma length_np_arange: "length (np_arange W S) = (W + S - 1) div S"
  by (simp add: np_arange_def)

lemma set_np_arange:
  assumes "0 < S"
  shows "set (np_arange W S) = {x. x < W \<and> S dvd x}"
proof -
  have "x \<in> set (np_arange W S) \<longleftrightarrow> x < W \<and> S dvd x" for x
  proof
    assume "x \<in> set (np_arange W S)"
    then obtain i where "i < (W + S - 1) div S" "x = i * S" by (auto simp: np_arange_def)
    then show "x < W \<and> S dvd x" using ceil_div_less_iff[OF assms] by simp
  next
    assume a: "x < W \<and> S dvd x"
    then obtain i where i: "x = i * S" by (auto simp: dvd_def mult.commute)
    then have "i < (W + S - 1) div S" using a ceil_div_less_iff[OF assms] by simp
    then show "x \<in> set (np_arange W S)" using i by (auto simp: np_arange_def)
  qed
  then show ?thesis by auto
qed

lemma distinct_np_arange:
  assumes "0 < S"
  shows "distinct (np_arange W S)"
  using assms by (simp add: np_arange_def distinct_map inj_on_def)

lemma length_tile_grid:
  "length (tile_grid W H S) = ((W + S - 1) div S) * ((H + S - 1) div S)"
  by (simp add: tile_grid_def length_concat comp_def length_np_arange sum_list_triv)

lemma set_tile_grid:
  "set (tile_grid W H S) = set (np_arange W S) \<times> set (np_arange H S)"
  by (auto simp: tile_grid_def)

lemma concat_map_Pair: "concat (map (\<lambda>a. map (\<lambda>b. (a, b)) ys) xs) = List.product xs ys"
  by (induction xs) simp_all

lemma distinct_tile_grid:
  assumes "0 < S"
  shows "distinct (tile_grid W H S)"
  unfolding tile_grid_def concat_map_Pair
  by (intro distinct_product distinct_np_arange[OF assms])

lemma set_tile_coords:
  "set (tile_coords H W S x y) = {y ..< min (y + S) H} \<times> {x ..< min (x + S) W}"
  by (auto simp: tile_coords_def)

lemma distinct_tile_coords: "distinct (tile_coords H W S x y)"
  unfolding tile_coords_def concat_map_Pair
  by (intro distinct_product distinct_upt)

lemma length_tile_coords:
  "length (tile_coords H W S x y) = (min (y + S) H - y) * (min (x + S) W - x)"
  by (simp add: tile_coords_def length_concat comp_def sum_list_triv)

text \<open>Two multiples of the stride that lie within one stride of a common index are equal.\<close>

lemma same_multiple:
  assumes "S dvd x" "S dvd x'" "x \<le> c" "c < x + S" "x' \<le> c" "c < x' + (S::nat)"
  shows "x = x'"
proof -
  obtain i where i: "x = S * i" using assms(1) by (auto simp: dvd_def)
  obtain j where j: "x' = S * j" using assms(2) by (auto simp: dvd_def)
  have "S * i < S * (j + 1)" using assms i j by simp
  then have a: "i < j + 1" using mult_less_cancel1 by blast
  have "S * j < S * (i + 1)" using assms i j by simp
  then have "j < i + 1" using mult_less_cancel1 by blast
  with a show ?thesis using i j by simp
qed

lemma tiles_disjoint:
  assumes "0 < S" "t1 \<in> set (tile_grid W H S)" "t2 \<in> set (tile_grid W H S)" "t1 \<noteq> t2"
  shows "set (tile_coords H W S (fst t1) (snd t1)) \<inter> set (tile_coords H W S (fst t2) (snd t2)) = {}"
proof (rule ccontr)
  assume "\<not> ?thesis"
  then obtain r c where
    a: "(r, c) \<in> set (tile_coords H W S (fst t1) (snd t1))" and
    b: "(r, c) \<in> set (tile_coords H W S (fst t2) (snd t2))" by auto
  have d: "S dvd fst t1" "S dvd snd t1" "S dvd fst t2" "S dvd snd t2"
    using assms(2,3) by (auto simp: set_tile_grid set_np_arange[OF assms(1)])
  have "fst t1 = fst t2"
    using a b d by (intro same_multiple[of S _ _ c]) (auto simp: set_tile_coords)
  moreover have "snd t1 = snd t2"
    using a b d by (intro same_multiple[of S _ _ r]) (auto simp: set_tile_coords)
  ultimately show False using assms(4) by (simp add: prod_eq_iff)
qed

lemma tiles_cover:
  assumes "0 < S"
  shows "(\<Union>t \<in> set (tile_grid W H S). set (tile_coords H W S (fst t) (snd t))) = {0 ..< H} \<times> {0 ..< W}"
proof (intro equalityI subsetI)
  fix p assume "p \<in> (\<Union>t \<in> set (tile_grid W H S). set (tile_coords H W S (fst t) (snd t)))"
  then show "p \<in> {0 ..< H} \<times> {0 ..< W}" by (auto simp: set_tile_coords)
next
  fix p :: "nat \<times> nat" assume p: "p \<in> {0 ..< H} \<times> {0 ..< W}"
  obtain r c where rc: "p = (r, c)" by (cases p)
  define x where "x = (c div S) * S"
  define y where "y = (r div S) * S"
  have x: "x \<le> c" "c < x + S" "S dvd x"
    using assms by (auto simp: x_def) (metis assms div_mult_mod_eq mod_less_divisor nat_add_left_cancel_less)
  have y: "y \<le> r" "r < y + S" "S dvd y"
    using assms by (auto simp: y_def) (metis assms div_mult_mod_eq mod_less_divisor nat_add_left_cancel_less)
  have "(x, y) \<in> set (tile_grid W H S)"
    using p rc x y by (auto simp: set_tile_grid set_np_arange[OF assms])
  moreover have "p \<in> set (tile_coords H W S x y)"
    using p rc x y by (auto simp: set_tile_coords)
  ultimately show "p \<in> (\<Union>t \<in> set (tile_grid W H S). set (tile_coords H W S (fst t) (snd t)))"
    by force
qed

text \<open>
  C5. For every image height \<open>H\<close>, width \<open>W\<close> and positive stride \<open>S\<close> the loops visit
  \<open>\<lceil>W / S\<rceil> * \<lceil>H / S\<rceil>\<close> tiles, no tile twice; the pixels of a tile are those of the
  stride-sized square at its corner, clipped to the image, and there is at least one;
  two different tiles share no pixel, and together the tiles hold every pixel of the
  image.
\<close>

theorem tile_grid_partition:
  assumes "0 < S"
  shows "length (tile_grid W H S) = nat \<lceil>real W / real S\<rceil> * nat \<lceil>real H / real S\<rceil>
         \<and> distinct (tile_grid W H S)
         \<and> (\<forall>(x, y) \<in> set (tile_grid W H S).
               set (tile_coords H W S x y) = {y ..< min (y + S) H} \<times> {x ..< min (x + S) W}
               \<and> tile_coords H W S x y \<noteq> [])
         \<and> (\<forall>(x1, y1) \<in> set (tile_grid W H S). \<forall>(x2, y2) \<in> set (tile_grid W H S).
               (x1, y1) \<noteq> (x2, y2) \<longrightarrow>
               set (tile_coords H W S x1 y1) \<inter> set (tile_coords H W S x2 y2) = {})
         \<and> (\<Union>(x, y) \<in> set (tile_grid W H S). set (tile_coords H W S x y))
             = {0 ..< H} \<times> {0 ..< W}"
proof (intro conjI)
  show "length (tile_grid W H S) = nat \<lceil>real W / real S\<rceil> * nat \<lceil>real H / real S\<rceil>"
    by (simp add: length_tile_grid ceiling_as_div[OF assms])
  show "distinct (tile_grid W H S)" by (rule distinct_tile_grid[OF assms])
  show "\<forall>(x, y) \<in> set (tile_grid W H S).
          set (tile_coords H W S x y) = {y ..< min (y + S) H} \<times> {x ..< min (x + S) W}
          \<and> tile_coords H W S x y \<noteq> []"
  proof (intro ballI, clarify, intro conjI)
    fix x y assume t: "(x, y) \<in> set (tile_grid W H S)"
    show "set (tile_coords H W S x y) = {y ..< min (y + S) H} \<times> {x ..< min (x + S) W}"
      by (rule set_tile_coords)
    have "x < W" "y < H" using t by (auto simp: set_tile_grid set_np_arange[OF assms])
    then have "(y, x) \<in> set (tile_coords H W S x y)"
      using assms by (auto simp: set_tile_coords)
    then show "tile_coords H W S x y \<noteq> []" by auto
  qed
  show "\<forall>(x1, y1) \<in> set (tile_grid W H S). \<forall>(x2, y2) \<in> set (tile_grid W H S).
          (x1, y1) \<noteq> (x2, y2) \<longrightarrow>
          set (tile_coords H W S x1 y1) \<inter> set (tile_coords H W S x2 y2) = {}"
    using tiles_disjoint[OF assms] by fastforce
  show "(\<Union>(x, y) \<in> set (tile_grid W H S). set (tile_coords H W S x y)) = {0 ..< H} \<times> {0 ..< W}"
    using tiles_cover[OF assms] by (simp add: case_prod_beta)
qed

lemma tile_grid_example: "tile_grid 5 3 2 = [(0, 0), (0, 2), (2, 0), (2, 2), (4, 0), (4, 2)]"
  by code_simp

lemma tile_coords_example: "tile_coords 3 5 2 4 2 = [(2, 4)]"
  by code_simp

theorem tile_grid_partition_witness:
  "0 < (2 :: nat)
   \<and> tile_grid 5 3 2 = [(0, 0), (0, 2), (2, 0), (2, 2), (4, 0), (4, 2)]
   \<and> length (tile_grid 5 3 2) = nat \<lceil>real 5 / real 2\<rceil> * nat \<lceil>real 3 / real 2\<rceil>
   \<and> tile_coords 3 5 2 4 2 = [(2, 4)]"
proof -
  have pos: "0 < (2 :: nat)" by simp
  show ?thesis
    using tile_grid_partition[OF pos, where W = 5 and H = 3] tile_grid_example tile_coords_example
    by simp
qed

lemma sorted_np_arange:
  assumes "0 < S"
  shows "sorted_wrt (<) (np_arange W S)"
  using assms by (simp add: np_arange_def sorted_wrt_map sorted_wrt_iff_nth_less)

lemma sorted_product:
  assumes "sorted_wrt (<) xs" "sorted_wrt (<) ys"
  shows "sorted_wrt scan_before (List.product xs ys)"
  using assms(1)
proof (induction xs)
  case Nil
  then show ?case by simp
next
  case (Cons x xs)
  have row: "sorted_wrt scan_before (map (Pair x) ys)"
    using assms(2) by (simp add: sorted_wrt_map scan_before_def)
  have rest: "sorted_wrt scan_before (List.product xs ys)"
    using Cons by simp
  have cross: "\<forall>a \<in> set (map (Pair x) ys). \<forall>b \<in> set (List.product xs ys). scan_before a b"
    using Cons.prems by (auto simp: scan_before_def)
  show ?case
    using row rest cross by (simp only: product.simps sorted_wrt_append simp_thms)
qed

lemma tile_grid_scan_order:
  assumes "0 < S"
  shows "sorted_wrt scan_before (tile_grid W H S)"
  unfolding tile_grid_def concat_map_Pair
  by (intro sorted_product sorted_np_arange[OF assms])

section \<open>Dump file names\<close>

declare string_of_nat.simps [simp del]

lemma string_of_nat_small: "n < 10 \<Longrightarrow> string_of_nat n = [digit_char n]"
  by (subst string_of_nat.simps) simp

lemma string_of_nat_big:
  "\<not> n < 10 \<Longrightarrow> string_of_nat n = string_of_nat (n div 10) @ [digit_char (n mod 10)]"
  by (subst string_of_nat.simps) simp

lemma string_of_nat_nonempty: "string_of_nat n \<noteq> []"
  by (subst string_of_nat.simps) simp

lemma digit_char_inj:
  assumes "a < 10" "b < 10" "digit_char a = digit_char b"
  shows "a = b"
proof -
  have "distinct ''0123456789''" by simp
  moreover have "a < length ''0123456789''" "b < length ''0123456789''"
    using assms(1,2) by simp_all
  ultimately show ?thesis
    using assms(3) unfolding digit_char_def by (simp only: nth_eq_iff_index_eq)
qed

lemma string_of_nat_inj: "string_of_nat m = string_of_nat n \<Longrightarrow> m = n"
proof (induction m arbitrary: n rule: string_of_nat.induct)
  case (1 m)
  show ?case
  proof (cases "m < 10")
    case m: True
    show ?thesis
    proof (cases "n < 10")
      case True
      then show ?thesis
        using "1.prems" m by (simp add: string_of_nat_small digit_char_inj)
    next
      case False
      then show ?thesis
        using "1.prems" m string_of_nat_nonempty[of "n div 10"]
        by (simp add: string_of_nat_small string_of_nat_big)
    qed
  next
    case m: False
    show ?thesis
    proof (cases "n < 10")
      case True
      then show ?thesis
        using "1.prems" m string_of_nat_nonempty[of "m div 10"]
        by (simp add: string_of_nat_small string_of_nat_big)
    next
      case False
      have e: "string_of_nat (m div 10) = string_of_nat (n div 10)"
        and d: "digit_char (m mod 10) = digit_char (n mod 10)"
        using "1.prems" m False by (simp_all add: string_of_nat_big)
      have "m div 10 = n div 10" using "1.IH"[OF m e] .
      moreover have "m mod 10 = n mod 10" using d by (intro digit_char_inj) simp_all
      ultimately show ?thesis by (metis div_mult_mod_eq)
    qed
  qed
qed

lemma dump_names_distinct:
  "distinct (map (\<lambda>k. prefix @ string_of_nat k @ suffix) [n ..< n + len])"
  by (auto simp: distinct_map inj_on_def dest: string_of_nat_inj)

lemma string_of_nat_example: "string_of_nat 120 = ''120''"
  by (simp add: string_of_nat_small string_of_nat_big digit_char_def)

section \<open>The loops over the tiles\<close>

lemma fold_dump_tile:
  "fold (dump_tile img S name inc) ts (n, fs) =
     (n + length (filter inc ts), fs @ crops img S name n (filter inc ts))"
proof (induction ts arbitrary: n fs)
  case Nil
  then show ?case by (simp add: crops_def)
next
  case (Cons t ts)
  obtain x y where t: "t = (x, y)" by (cases t)
  show ?case
  proof (cases "inc t")
    case True
    then show ?thesis
      using Cons.IH[of "Suc n"] by (simp add: dump_tile_def t crops_def)
  next
    case False
    then show ?thesis using Cons.IH[of n] by (simp add: dump_tile_def t)
  qed
qed

lemma crops_names_distinct: "distinct (map fst (crops img S name n ts))"
proof -
  have "map fst (crops img S name n ts)
        = map (\<lambda>p. name @ string_of_nat (fst p) @ ''.jpg'') (List.enumerate n ts)"
    by (simp add: crops_def split_def comp_def)
  also have "\<dots> = map (\<lambda>k. name @ string_of_nat k @ ''.jpg'') (map fst (List.enumerate n ts))"
    by (simp only: map_map comp_def)
  also have "\<dots> = map (\<lambda>k. name @ string_of_nat k @ ''.jpg'') [n ..< n + length ts]"
    by (simp only: map_fst_enumerate)
  finally show ?thesis by (simp only: dump_names_distinct)
qed

lemma spectral_by_activation:
  assumes "slice 2 = Inr img" "0 < stride"
  shows "spectral_decompose_and_dump_jpeg cm slice stride process_raw threshold pc
           raw_threshold raw_pc name fs =
         (case activation cm img stride process_raw threshold raw_threshold of
            Inl e \<Rightarrow> (Inl e, fs)
          | Inr stat \<Rightarrow>
              (Inr \<lparr> nrows = (nrows img + stride - 1) div stride,
                      ncols = (ncols img + stride - 1) div stride,
                      cells = replicate (((nrows img + stride - 1) div stride)
                                         * ((ncols img + stride - 1) div stride)) 0 \<rparr>,
               fs @ crops img stride name 0
                      (filter (\<lambda>t. np_gt (stat t) (if process_raw then raw_pc else pc))
                         (tile_grid (ncols img) (nrows img) stride))))"
proof -
  have g: "np_gt (Some v) t = (t < v)" for v t by (simp add: np_gt_def)
  show ?thesis
    using assms
    by (auto simp: spectral_decompose_and_dump_jpeg_def activation_def Let_def fold_dump_tile g
          split_def split: sum.splits)
qed

section \<open>The statistic of a tile\<close>

lemma cells_slice2:
  "cells (slice2 A y x S) = map (\<lambda>(r, c). at2 A r c) (tile_coords (nrows A) (ncols A) S x y)"
  by (simp add: slice2_def)

lemma card_tile:
  "card ({y ..< min (y + S) H} \<times> {x ..< min (x + S) W}) = (min (y + S) H - y) * (min (x + S) W - x)"
  by (simp add: card_cartesian_product)

lemma count_in_tile:
  "length (filter P (tile_coords H W S x y))
     = card {p. p \<in> {y ..< min (y + S) H} \<times> {x ..< min (x + S) W} \<and> P p}"
proof -
  have "distinct (filter P (tile_coords H W S x y))"
    by (intro distinct_filter distinct_tile_coords)
  then have "length (filter P (tile_coords H W S x y)) = card (set (filter P (tile_coords H W S x y)))"
    by (simp only: distinct_card)
  also have "set (filter P (tile_coords H W S x y))
               = {p. p \<in> {y ..< min (y + S) H} \<times> {x ..< min (x + S) W} \<and> P p}"
    by (simp only: set_filter set_tile_coords)
  finally show ?thesis .
qed

lemma count_true_map: "length (filter (\<lambda>b. b) (map f xs)) = length (filter f xs)"
  by (induction xs) simp_all

lemma raw_statistic_count:
  assumes "0 < S" "(x, y) \<in> set (tile_grid (ncols raw) (nrows raw) S)"
  shows "raw_statistic raw S thr x y =
           Some (real (card {p. p \<in> {y ..< min (y + S) (nrows raw)} \<times> {x ..< min (x + S) (ncols raw)}
                              \<and> (case p of (r, c) \<Rightarrow> np_lt (at2 raw r c) thr)})
                 / real (card ({y ..< min (y + S) (nrows raw)} \<times> {x ..< min (x + S) (ncols raw)})))"
proof -
  have "x < ncols raw" "y < nrows raw"
    using assms by (auto simp: set_tile_grid set_np_arange[OF assms(1)])
  then have "0 < (min (y + S) (nrows raw) - y) * (min (x + S) (ncols raw) - x)"
    using assms(1) by simp
  then have ne: "tile_coords (nrows raw) (ncols raw) S x y \<noteq> []"
    using length_tile_coords[of "nrows raw" "ncols raw" S x y] by auto
  show ?thesis
    unfolding raw_statistic_def cells_slice2 np_mean_def
    using ne
    by (simp add: count_true_map comp_def split_def count_in_tile[unfolded split_def]
          length_tile_coords card_tile)
qed

lemma diff_statistic_count:
  "diff_statistic raw3 S threshold x y =
     real (card {p. p \<in> {y ..< min (y + S) (nrows raw3)} \<times> {x ..< min (x + S) (ncols raw3)}
                  \<and> (case p of (r, c) \<Rightarrow>
                        (case at2 raw3 r c of (c0, c1, c2) \<Rightarrow>
                           np_gt (np_abs (np_sub c0 c2)) threshold))})
     / real (S ^ 2)"
  unfolding diff_statistic_def cells_slice2 Let_def
  by (simp add: filter_map comp_def split_def count_in_tile[unfolded split_def])

section \<open>The least-squares fit\<close>

lemma over_common_denominator:
  fixes D :: real
  assumes "D \<noteq> 0" and "a * n1 + b * n2 + c * n3 = p * D"
  shows "a * (n1 / D) + b * (n2 / D) + c * (n3 / D) = p"
proof -
  have "a * (n1 / D) + b * (n2 / D) + c * (n3 / D) = (a * n1 + b * n2 + c * n3) / D"
    by (simp add: add_divide_distrib)
  then show ?thesis using assms by simp
qed

lemma cramer3_solves:
  assumes "det3 M \<noteq> 0"
  shows "mat3_vec M (cramer3 M v) = v"
proof -
  obtain a b c d e f g h i where M: "M = ((a, b, c), (d, e, f), (g, h, i))"
    by (metis prod_cases3)
  obtain p q r where v: "v = (p, q, r)" by (metis prod_cases3)
  define D where "D = det3 M"
  define n1 where "n1 = det3 ((p, b, c), (q, e, f), (r, h, i))"
  define n2 where "n2 = det3 ((a, p, c), (d, q, f), (g, r, i))"
  define n3 where "n3 = det3 ((a, b, p), (d, e, q), (g, h, r))"
  have D: "D \<noteq> 0" using assms by (simp add: D_def)
  have "a * n1 + b * n2 + c * n3 = p * D"
    by (simp add: n1_def n2_def n3_def D_def M det3_def algebra_simps)
  then have 1: "a * (n1 / D) + b * (n2 / D) + c * (n3 / D) = p"
    by (rule over_common_denominator[OF D])
  have "d * n1 + e * n2 + f * n3 = q * D"
    by (simp add: n1_def n2_def n3_def D_def M det3_def algebra_simps)
  then have 2: "d * (n1 / D) + e * (n2 / D) + f * (n3 / D) = q"
    by (rule over_common_denominator[OF D])
  have "g * n1 + h * n2 + i * n3 = r * D"
    by (simp add: n1_def n2_def n3_def D_def M det3_def algebra_simps)
  then have 3: "g * (n1 / D) + h * (n2 / D) + i * (n3 / D) = r"
    by (rule over_common_denominator[OF D])
  have "cramer3 M v = (n1 / D, n2 / D, n3 / D)"
    by (simp add: cramer3_def M v n1_def n2_def n3_def D_def)
  then show ?thesis using 1 2 3 by (simp add: M v mat3_vec_def dot3_def)
qed

text \<open>A matrix of non-zero determinant sends only the zero vector to zero.\<close>

lemma cramer3_unique:
  assumes "det3 M \<noteq> 0"
  shows "cramer3 M (mat3_vec M z) = z"
proof -
  obtain a b c d e f g h i where M: "M = ((a, b, c), (d, e, f), (g, h, i))"
    by (metis prod_cases3)
  obtain x y w where z: "z = (x, y, w)" by (metis prod_cases3)
  define D where "D = det3 M"
  have D: "D \<noteq> 0" using assms by (simp add: D_def)
  have "det3 ((a * x + b * y + c * w, b, c), (d * x + e * y + f * w, e, f), (g * x + h * y + i * w, h, i)) = x * D"
    by (simp add: D_def M det3_def algebra_simps)
  moreover have "det3 ((a, a * x + b * y + c * w, c), (d, d * x + e * y + f * w, f), (g, g * x + h * y + i * w, i)) = y * D"
    by (simp add: D_def M det3_def algebra_simps)
  moreover have "det3 ((a, b, a * x + b * y + c * w), (d, e, d * x + e * y + f * w), (g, h, g * x + h * y + i * w)) = w * D"
    by (simp add: D_def M det3_def algebra_simps)
  moreover have "det3 ((a, b, c), (d, e, f), (g, h, i)) = D" by (simp add: D_def M)
  ultimately show ?thesis
    using D by (simp add: cramer3_def M z mat3_vec_def dot3_def)
qed

lemma map2_map_same: "map2 f (map g xs) xs = map (\<lambda>x. f (g x) x) xs"
  by (induction xs) simp_all

lemma lincomb_Nil [simp]: "lincomb [] R = (0, 0, 0)" "lincomb w [] = (0, 0, 0)"
  by (simp_all add: lincomb_def)

lemma lincomb_Cons [simp]:
  "lincomb (x # w) (r # R) =
     (x * fst r + fst (lincomb w R),
      x * fst (snd r) + fst (snd (lincomb w R)),
      x * snd (snd r) + snd (snd (lincomb w R)))"
  by (simp add: lincomb_def)

lemma lincomb_map: 
  "lincomb (map f R) R =
     (sum_list (map (\<lambda>r. f r * fst r) R),
      sum_list (map (\<lambda>r. f r * fst (snd r)) R),
      sum_list (map (\<lambda>r. f r * snd (snd r)) R))"
  by (induction R) simp_all

lemma sum_list_dot3_times:
  "sum_list (map (\<lambda>r. dot3 r (x, y, w) * g r) R) =
     x * sum_list (map (\<lambda>r. fst r * g r) R)
     + y * sum_list (map (\<lambda>r. fst (snd r) * g r) R)
     + w * sum_list (map (\<lambda>r. snd (snd r) * g r) R)"
  by (induction R) (simp_all add: dot3_def split_def algebra_simps)

lemma lincomb_map_dot3: "lincomb (map (\<lambda>r. dot3 r z) R) R = mat3_vec (gram R) z"
proof -
  obtain x y w where z: "z = (x, y, w)" by (metis prod_cases3)
  show ?thesis
    unfolding z lincomb_map sum_list_dot3_times
    by (simp add: gram_def lincomb_map mat3_vec_def dot3_def mult.commute)
qed

lemma min_norm_weights_fit:
  assumes "det3 (gram R) \<noteq> 0"
  shows "lincomb (min_norm_weights R p) R = p"
  by (simp add: min_norm_weights_def lincomb_map_dot3 cramer3_solves[OF assms])

lemma dotl_map_dot3:
  assumes "length w = length R"
  shows "dotl w (map (\<lambda>r. dot3 r z) R) = dot3 (lincomb w R) z"
  using assms
proof (induction w R rule: list_induct2)
  case Nil
  then show ?case by (simp add: dotl_def dot3_def split_def)
next
  case (Cons x w r R)
  obtain a b c where z: "z = (a, b, c)" by (metis prod_cases3)
  show ?case
    using Cons.IH by (simp add: dotl_def dot3_def z split_def algebra_simps)
qed

lemma sq_norm_diff:
  assumes "length w = length x"
  shows "sq_norm (map2 (-) w x) = sq_norm w - 2 * dotl w x + sq_norm x"
  using assms
  by (induction w x rule: list_induct2) (simp_all add: sq_norm_def dotl_def algebra_simps)

lemma sq_norm_nonneg: "0 \<le> sq_norm v"
  by (induction v) (simp_all add: sq_norm_def)

lemma sq_norm_zero:
  assumes "length w = length x" "sq_norm (map2 (-) w x) = 0"
  shows "w = x"
  using assms
proof (induction w x rule: list_induct2)
  case Nil
  then show ?case by simp
next
  case (Cons a w b x)
  have "(a - b) * (a - b) + sq_norm (map2 (-) w x) = 0"
    using Cons.prems by (simp add: sq_norm_def)
  moreover have "0 \<le> (a - b) * (a - b)" by simp
  moreover have "0 \<le> sq_norm (map2 (-) w x)" by (rule sq_norm_nonneg)
  ultimately have "(a - b) * (a - b) = 0" "sq_norm (map2 (-) w x) = 0" by linarith+
  then show ?case using Cons.IH by simp
qed

lemma min_norm_weights_least:
  assumes "det3 (gram R) \<noteq> 0" "length w = length R" "lincomb w R = p"
  shows "sq_norm (min_norm_weights R p) \<le> sq_norm w"
    and "sq_norm (min_norm_weights R p) = sq_norm w \<Longrightarrow> min_norm_weights R p = w"
proof -
  define z where "z = cramer3 (gram R) p"
  define x where "x = min_norm_weights R p"
  have x: "x = map (\<lambda>r. dot3 r z) R" by (simp add: x_def z_def min_norm_weights_def)
  have len: "length w = length x" "length x = length R" using assms(2) by (simp_all add: x)
  have fit: "lincomb x R = p" unfolding x_def by (rule min_norm_weights_fit[OF assms(1)])
  have "dotl w x = dot3 p z" using dotl_map_dot3[OF assms(2)] assms(3) by (simp add: x)
  moreover have "dotl x x = dot3 p z" using dotl_map_dot3[OF len(2), of z] fit by (simp add: x)
  moreover have "dotl x x = sq_norm x" by (simp add: dotl_def sq_norm_def map2_map_same[of _ "\<lambda>v. v", simplified])
  ultimately have d: "sq_norm (map2 (-) w x) = sq_norm w - sq_norm x"
    using sq_norm_diff[OF len(1)] by simp
  show "sq_norm (min_norm_weights R p) \<le> sq_norm w"
    using d sq_norm_nonneg[of "map2 (-) w x"] by (simp add: x_def)
  show "min_norm_weights R p = w" if "sq_norm (min_norm_weights R p) = sq_norm w"
    using sq_norm_zero[OF len(1)] d that by (simp add: x_def)
qed

lemma min_norm_weights_range:
  assumes "det3 (gram R) \<noteq> 0"
  shows "min_norm_weights R (lincomb w R) = w \<longleftrightarrow> (\<exists>z. w = map (\<lambda>r. dot3 r z) R)"
proof
  assume "min_norm_weights R (lincomb w R) = w"
  then show "\<exists>z. w = map (\<lambda>r. dot3 r z) R"
    by (metis min_norm_weights_def)
next
  assume "\<exists>z. w = map (\<lambda>r. dot3 r z) R"
  then obtain z where w: "w = map (\<lambda>r. dot3 r z) R" by blast
  have "lincomb w R = mat3_vec (gram R) z" unfolding w by (rule lincomb_map_dot3)
  then have "cramer3 (gram R) (lincomb w R) = z" using cramer3_unique[OF assms] by simp
  then show "min_norm_weights R (lincomb w R) = w" by (simp add: min_norm_weights_def w)
qed

lemma length_responses: "length responses = 5"
  by (simp add: responses_def)

lemma gram_responses:
  "gram responses =
    ((5406256823615144316 / 10 ^ 16, 6522216960357193951 / 10 ^ 16, 4394329546538006685 / 10 ^ 16),
     (6522216960357193951 / 10 ^ 16, 8307485374635118217 / 10 ^ 16, 5894616927762516704 / 10 ^ 16),
     (4394329546538006685 / 10 ^ 16, 5894616927762516704 / 10 ^ 16, 4608864081874036204 / 10 ^ 16))"
  by (simp add: responses_def gram_def lincomb_def)

text \<open>Arithmetic over a common denominator, to evaluate with whole numbers.\<close>

lemma det3_common:
  fixes s :: real
  assumes "s \<noteq> 0"
  shows "det3 ((a / s, b / s, c / s), (d / s, e / s, f / s), (g / s, h / s, i / s))
           = det3 ((a, b, c), (d, e, f), (g, h, i)) / s ^ 3"
  using assms by (simp add: det3_def power3_eq_cube field_simps)

lemma dot3_common:
  "dot3 (a / s, b / s, c / s) (x / d, y / d, z / d) = (a * x + b * y + c * z) / (s * d)"
  by (simp add: dot3_def add_divide_distrib mult.commute)

lemma responses_full_rank: "det3 (gram responses) \<noteq> 0"
proof -
  have e: "det3 ((a / 10 ^ 16, b / 10 ^ 16, c / 10 ^ 16), (d / 10 ^ 16, e / 10 ^ 16, f / 10 ^ 16),
                 (g / 10 ^ 16, h / 10 ^ 16, i / 10 ^ 16))
           = det3 ((a, b, c), (d, e, f), (g, h, i)) / (10 ^ 16) ^ 3" for a b c d e f g h i :: real
    by (rule det3_common) simp
  show ?thesis unfolding gram_responses e by (simp add: det3_def)
qed

lemma lstsq_rows:
  assumes "det3 (gram R) \<noteq> 0"
  shows "lstsq R T_I = Inr (map (\<lambda>k. map (\<lambda>p. min_norm_weights R p ! k) T_I) [0 ..< length R])"
  using assms by (simp add: lstsq_def)

lemma unmix_rows:
  "unmix img =
     (case normalise_value exact (map (\<lambda>p. Some (min_norm_weights responses p ! 0)) (cells img)) of
        Inl e \<Rightarrow> Inl e
      | Inr DAB \<Rightarrow>
          (case normalise_value exact (map (\<lambda>p. Some (min_norm_weights responses p ! 3)) (cells img)) of
             Inl e \<Rightarrow> Inl e
           | Inr BT \<Rightarrow> Inr (DAB, BT)))"
  by (simp add: unmix_def lstsq_rows[OF responses_full_rank] length_responses comp_def
        split: sum.splits)

text \<open>
  The weights of a pixel are found by checking a solution of \<open>(R.T @ R) z = p\<close> rather
  than by computing one.
\<close>

lemma min_norm_weights_nth:
  assumes "det3 (gram R) \<noteq> 0" "mat3_vec (gram R) z = p" "k < length R"
  shows "min_norm_weights R p ! k = dot3 (R ! k) z"
proof -
  have "cramer3 (gram R) p = z" using cramer3_unique[OF assms(1), of z] assms(2) by simp
  then show ?thesis using assms(3) by (simp add: min_norm_weights_def)
qed

lemma example_solutions:
  "mat3_vec (gram responses)
     (9030983683402404693458974683927206862600000000000000000 / 558565949206827309003660431686143859565999520328996883,
      - 10600661486554519757535817724761471198200000000000000000 / 558565949206827309003660431686143859565999520328996883,
      4947362257768095039374866244369640990450000000000000000 / 558565949206827309003660431686143859565999520328996883)
   = (255, 0, 0)"
  "mat3_vec (gram responses)
     (4947362257768095039374866244369640990450000000000000000 / 558565949206827309003660431686143859565999520328996883,
      - 8177957840735525323070980880144784673950000000000000000 / 558565949206827309003660431686143859565999520328996883,
      6051367810119371630590254878738766136050000000000000000 / 558565949206827309003660431686143859565999520328996883)
   = (0, 0, 255)"
  unfolding gram_responses mat3_vec_def prod.case dot3_common by simp_all

lemma responses_rows:
  "responses ! 0 = (710357511 / 10 ^ 8, 1261506218 / 10 ^ 8, 1359695489 / 10 ^ 8)"
  "responses ! 3 = (1705035857 / 10 ^ 8, 1764819458 / 10 ^ 8, 917788779 / 10 ^ 8)"
  by (simp_all add: responses_def)

lemma example_weights:
  "min_norm_weights responses (255, 0, 0) ! 0 =
     - 2306671446421718275137681679668936079941983389500000000 / 558565949206827309003660431686143859565999520328996883"
  "min_norm_weights responses (255, 0, 0) ! 3 =
     12305309108680771277718073556591249285929938331500000000 / 558565949206827309003660431686143859565999520328996883"
  "min_norm_weights responses (0, 0, 255) ! 0 =
     14258687865128836764594197116279196560937544273000000000 / 558565949206827309003660431686143859565999520328996883"
  "min_norm_weights responses (0, 0, 255) ! 3 =
     - 4433116032412793562027604867398743669010237705000000000 / 558565949206827309003660431686143859565999520328996883"
proof -
  have k: "0 < length responses" "3 < length responses" by (simp_all add: length_responses)
  note w = min_norm_weights_nth[OF responses_full_rank]
  show "min_norm_weights responses (255, 0, 0) ! 0 =
     - 2306671446421718275137681679668936079941983389500000000 / 558565949206827309003660431686143859565999520328996883"
    unfolding w[OF example_solutions(1) k(1)] responses_rows dot3_common by simp
  show "min_norm_weights responses (255, 0, 0) ! 3 =
     12305309108680771277718073556591249285929938331500000000 / 558565949206827309003660431686143859565999520328996883"
    unfolding w[OF example_solutions(1) k(2)] responses_rows dot3_common by simp
  show "min_norm_weights responses (0, 0, 255) ! 0 =
     14258687865128836764594197116279196560937544273000000000 / 558565949206827309003660431686143859565999520328996883"
    unfolding w[OF example_solutions(2) k(1)] responses_rows dot3_common by simp
  show "min_norm_weights responses (0, 0, 255) ! 3 =
     - 4433116032412793562027604867398743669010237705000000000 / 558565949206827309003660431686143859565999520328996883"
    unfolding w[OF example_solutions(2) k(2)] responses_rows dot3_common by simp
qed

text \<open>normalise does not change when every element is divided by one positive number.\<close>

lemma Min_Max_scale:
  fixes k :: real
  assumes "xs \<noteq> []" "0 < k"
  shows "Min (set (map (\<lambda>x. x / k) xs)) = Min (set xs) / k"
    and "Max (set (map (\<lambda>x. x / k) xs)) = Max (set xs) / k"
proof -
  have m: "mono (\<lambda>x :: real. x / k)" using assms(2) by (simp add: mono_def divide_right_mono)
  have "Min (set xs) / k = Min ((\<lambda>x. x / k) ` set xs)"
    using assms(1) by (intro mono_Min_commute[OF m]) simp_all
  then show "Min (set (map (\<lambda>x. x / k) xs)) = Min (set xs) / k" by simp
  have "Max (set xs) / k = Max ((\<lambda>x. x / k) ` set xs)"
    using assms(1) by (intro mono_Max_commute[OF m]) simp_all
  then show "Max (set (map (\<lambda>x. x / k) xs)) = Max (set xs) / k" by simp
qed

lemma normalise_value_scale:
  fixes k :: real
  assumes "0 < k"
  shows "normalise_value exact (map Some (map (\<lambda>x. x / k) xs)) = normalise_value exact (map Some xs)"
proof (cases "xs = []")
  case True
  then show ?thesis by simp
next
  case False
  define ys where "ys = map (\<lambda>x. x / k) xs"
  have ne: "ys \<noteq> []" using False by (simp add: ys_def)
  have mm: "Min (set ys) = Min (set xs) / k" "Max (set ys) = Max (set xs) / k"
    unfolding ys_def by (rule Min_Max_scale[OF False assms])+
  have sh: "shift_of ys = shift_of xs / k"
    using assms by (simp add: shift_of_def mm abs_divide max_def divide_le_cancel)
  have dg: "degenerate ys = degenerate xs"
    using assms by (simp add: degenerate_def mm divide_le_0_iff)
  have sc: "scaled ys (x / k) = scaled xs x" for x
    using assms by (simp add: scaled_def mm sh flip: add_divide_distrib)
  show ?thesis
    unfolding normalise_value_finite[OF ne[unfolded ys_def]] normalise_value_finite[OF False]
    by (simp add: dg[unfolded ys_def] sc[unfolded ys_def] comp_def)
qed

lemma unmix_example:
  "unmix \<lparr> nrows = 1, ncols = 2, cells = [(255, 0, 0), (0, 0, 255)] \<rparr> =
     Inr ([Some (468706526223808568213980997514127861999825917 / 1118328460010104844281897813041505612622552492), Some 1],
          [Some 1, Some (308713453971293243752567399576176690859596103 / 965122283033785982566123416203235238112152026)])"
proof -
  have pos: "(0 :: real) < 558565949206827309003660431686143859565999520328996883"
    by simp
  have d: "normalise_value exact
             (map (\<lambda>p. Some (min_norm_weights responses p ! 0)) [(255, 0, 0), (0, 0, 255)])
           = Inr [Some (468706526223808568213980997514127861999825917 / 1118328460010104844281897813041505612622552492), Some 1]"
  proof -
    have e: "map (\<lambda>p. Some (min_norm_weights responses p ! 0)) [(255, 0, 0), (0, 0, 255)]
          = map Some (map (\<lambda>x. x / 558565949206827309003660431686143859565999520328996883)
              [- 2306671446421718275137681679668936079941983389500000000,
               14258687865128836764594197116279196560937544273000000000])"
      by (simp only: list.map example_weights)
    show ?thesis
      unfolding e normalise_value_scale[OF pos] by (simp add: normalise_value_exact)
  qed
  have b: "normalise_value exact
             (map (\<lambda>p. Some (min_norm_weights responses p ! 3)) [(255, 0, 0), (0, 0, 255)])
           = Inr [Some 1, Some (308713453971293243752567399576176690859596103 / 965122283033785982566123416203235238112152026)]"
  proof -
    have e: "map (\<lambda>p. Some (min_norm_weights responses p ! 3)) [(255, 0, 0), (0, 0, 255)]
          = map Some (map (\<lambda>x. x / 558565949206827309003660431686143859565999520328996883)
              [12305309108680771277718073556591249285929938331500000000,
               - 4433116032412793562027604867398743669010237705000000000])"
      by (simp only: list.map example_weights)
    show ?thesis
      unfolding e normalise_value_scale[OF pos] by (simp add: normalise_value_exact)
  qed
  show ?thesis
    unfolding unmix_rows array2.select_convs d b by simp
qed

lemma length_min_norm_weights: "length (min_norm_weights R p) = length R"
  by (simp add: min_norm_weights_def)

lemma lstsq_column:
  assumes "det3 (gram R) \<noteq> 0" "j < length T_I"
  shows "\<exists>T_x. lstsq R T_I = Inr T_x \<and> length T_x = length R
           \<and> (\<forall>k < length R. length (T_x ! k) = length T_I)
           \<and> map (\<lambda>k. T_x ! k ! j) [0 ..< length R] = min_norm_weights R (T_I ! j)"
proof -
  define T_x where "T_x = map (\<lambda>k. map (\<lambda>p. min_norm_weights R p ! k) T_I) [0 ..< length R]"
  have "map (\<lambda>k. T_x ! k ! j) [0 ..< length R]
          = map (\<lambda>k. min_norm_weights R (T_I ! j) ! k) [0 ..< length R]"
    using assms(2) by (simp add: T_x_def)
  also have "\<dots> = min_norm_weights R (T_I ! j)"
    using map_nth[of "min_norm_weights R (T_I ! j)"] by (simp add: length_min_norm_weights)
  finally show ?thesis
    using lstsq_rows[OF assms(1), of T_I] by (simp add: T_x_def)
qed

text \<open>
  C3, as amended. For every synthetic image whose every pixel is an exact linear
  combination of the five response rows with known coefficients, the least-squares
  solve returns five weight maps; the weights it returns for a pixel reproduce that
  pixel exactly, their sum of squares is at most that of the known coefficients, and
  they are the known coefficients exactly when those are of the form
  \<open>w\<^sub>k = R\<^sub>k \<bullet> z\<close> for one vector \<open>z\<close> of three channels, that is, when they lie in
  the three-dimensional column space of the responses.
\<close>

theorem lstsq_recovers_minimum_norm_weights:
  assumes "\<forall>w \<in> set ws. length w = 5"
  shows "\<exists>T_x. lstsq responses (map (\<lambda>w. lincomb w responses) ws) = Inr T_x
           \<and> length T_x = 5
           \<and> (\<forall>k < 5. length (T_x ! k) = length ws)
           \<and> (\<forall>j < length ws.
                 let x = map (\<lambda>k. T_x ! k ! j) [0 ..< 5] in
                   lincomb x responses = lincomb (ws ! j) responses
                   \<and> sq_norm x \<le> sq_norm (ws ! j)
                   \<and> (x = ws ! j \<longleftrightarrow> (\<exists>z. ws ! j = map (\<lambda>r. dot3 r z) responses)))"
proof -
  define T_I where "T_I = map (\<lambda>w. lincomb w responses) ws"
  define T_x where
    "T_x = map (\<lambda>k. map (\<lambda>p. min_norm_weights responses p ! k) T_I) [0 ..< length responses]"
  have val: "lstsq responses T_I = Inr T_x"
    unfolding T_x_def by (rule lstsq_rows[OF responses_full_rank])
  have len: "length T_x = 5" by (simp add: T_x_def length_responses)
  have rows: "\<forall>k < 5. length (T_x ! k) = length ws"
    by (simp add: T_x_def T_I_def length_responses)
  have cols: "let x = map (\<lambda>k. T_x ! k ! j) [0 ..< 5] in
                lincomb x responses = lincomb (ws ! j) responses
                \<and> sq_norm x \<le> sq_norm (ws ! j)
                \<and> (x = ws ! j \<longleftrightarrow> (\<exists>z. ws ! j = map (\<lambda>r. dot3 r z) responses))"
    if j: "j < length ws" for j
  proof -
    define w where "w = ws ! j"
    define x where "x = min_norm_weights responses (lincomb w responses)"
    have lw: "length w = length responses"
      using assms j by (simp add: w_def length_responses)
    have "map (\<lambda>k. T_x ! k ! j) [0 ..< 5]
            = map (\<lambda>k. min_norm_weights responses (T_I ! j) ! k) [0 ..< length responses]"
      using j by (simp add: T_x_def T_I_def length_responses)
    also have "\<dots> = min_norm_weights responses (T_I ! j)"
      using map_nth[of "min_norm_weights responses (T_I ! j)"]
      by (simp add: length_min_norm_weights)
    also have "\<dots> = x" using j by (simp add: x_def w_def T_I_def)
    finally have col: "map (\<lambda>k. T_x ! k ! j) [0 ..< 5] = x" .
    have 1: "lincomb x responses = lincomb w responses"
      unfolding x_def by (rule min_norm_weights_fit[OF responses_full_rank])
    have 2: "sq_norm x \<le> sq_norm w"
      unfolding x_def by (rule min_norm_weights_least(1)[OF responses_full_rank lw refl])
    have 3: "x = w \<longleftrightarrow> (\<exists>z. w = map (\<lambda>r. dot3 r z) responses)"
      unfolding x_def by (rule min_norm_weights_range[OF responses_full_rank])
    show ?thesis unfolding Let_def col w_def[symmetric] using 1 2 3 by blast
  qed
  show ?thesis using val len rows cols unfolding T_I_def by blast
qed

lemma first_column_in_range:
  "[7.10357511, 8.81961536, 11.02074647, 17.05035857, 0.45574971]
     = map (\<lambda>r. dot3 r (1, 0, 0)) responses"
  by (simp add: responses_def dot3_def)

theorem lstsq_recovers_minimum_norm_weights_witness:
  "length [7.10357511, 8.81961536, 11.02074647, 17.05035857, 0.45574971 :: real] = 5
   \<and> (\<exists>T_x. lstsq responses
               [lincomb [7.10357511, 8.81961536, 11.02074647, 17.05035857, 0.45574971] responses]
             = Inr T_x
           \<and> map (\<lambda>k. T_x ! k ! 0) [0 ..< 5]
               = [7.10357511, 8.81961536, 11.02074647, 17.05035857, 0.45574971])"
proof -
  define w :: "real list" where
    "w = [7.10357511, 8.81961536, 11.02074647, 17.05035857, 0.45574971]"
  have h: "\<forall>v \<in> set [w]. length v = 5" by (simp add: w_def)
  have r: "\<exists>z. w = map (\<lambda>r. dot3 r z) responses"
    unfolding w_def by (rule exI[of _ "(1, 0, 0)"]) (rule first_column_in_range)
  obtain T_x where
    "lstsq responses (map (\<lambda>w. lincomb w responses) [w]) = Inr T_x"
    "\<forall>j < length [w]. let x = map (\<lambda>k. T_x ! k ! j) [0 ..< 5] in
        lincomb x responses = lincomb ([w] ! j) responses
        \<and> sq_norm x \<le> sq_norm ([w] ! j)
        \<and> (x = [w] ! j \<longleftrightarrow> (\<exists>z. [w] ! j = map (\<lambda>r. dot3 r z) responses))"
    using lstsq_recovers_minimum_norm_weights[OF h] by blast
  then have "lstsq responses [lincomb w responses] = Inr T_x"
    "map (\<lambda>k. T_x ! k ! 0) [0 ..< 5] = w"
    using r by (simp_all add: Let_def)
  then show ?thesis unfolding w_def by simp
qed

lemma cramer3_zero: "cramer3 M (0, 0, 0) = (0, 0, 0)"
  by (cases M rule: prod_cases3) (simp add: cramer3_def det3_def split_def)

lemma three_rows_independent:
  "det3 ((8.81961536, 10.18302502, 5.08567669),
         (11.02074647, 15.41804066, 12.77042165),
         (17.05035857, 17.64819458, 9.17788779)) \<noteq> 0"
  by (simp add: det3_def)

lemma unit_weight_not_in_range:
  "\<not> (\<exists>z. [1, 0, 0, 0, 0] = map (\<lambda>r. dot3 r z) responses)"
proof
  assume "\<exists>z. [1, 0, 0, 0, 0] = map (\<lambda>r. dot3 r z) responses"
  then obtain z where z: "[1, 0, 0, 0, 0] = map (\<lambda>r. dot3 r z) responses" by (rule exE)
  define M :: mat3 where
    "M = ((8.81961536, 10.18302502, 5.08567669),
          (11.02074647, 15.41804066, 12.77042165),
          (17.05035857, 17.64819458, 9.17788779))"
  have one: "dot3 (7.10357511, 12.61506218, 13.59695489) z = 1"
    and zero: "mat3_vec M z = (0, 0, 0)"
    using z by (simp_all add: responses_def mat3_vec_def M_def)
  have "z = cramer3 M (mat3_vec M z)"
    using cramer3_unique[of M z] three_rows_independent by (simp add: M_def)
  also have "\<dots> = (0, 0, 0)" unfolding zero by (rule cramer3_zero)
  finally show False using one by (simp add: dot3_def)
qed

text \<open>
  C3 as stated fails on the one-pixel image whose pixel is the DAB row itself, with
  the known coefficients \<open>(1, 0, 0, 0, 0)\<close>: three channels do not determine five
  weights, and the solve returns other weights that give the same pixel.
\<close>

theorem lstsq_pure_DAB_counterexample:
  "lincomb [1, 0, 0, 0, 0] responses = (7.10357511, 12.61506218, 13.59695489)
   \<and> lstsq responses [(7.10357511, 12.61506218, 13.59695489)]
       \<noteq> Inr [[1], [0], [0], [0], [0]]"
proof -
  have p: "lincomb [1, 0, 0, 0, 0] responses = (7.10357511, 12.61506218, 13.59695489)"
    by (simp add: responses_def)
  have "min_norm_weights responses (lincomb [1, 0, 0, 0, 0] responses) \<noteq> [1, 0, 0, 0, 0]"
    using min_norm_weights_range[OF responses_full_rank, of "[1, 0, 0, 0, 0]"]
      unit_weight_not_in_range by blast
  moreover have "map (\<lambda>k. [[1], [0], [0], [0], [0]] ! k ! 0) [0 ..< length responses]
                   = [1, 0, 0, 0, 0 :: real]"
    by (simp add: length_responses upt_rec)
  ultimately have "lstsq responses [(7.10357511, 12.61506218, 13.59695489)]
                     \<noteq> Inr [[1], [0], [0], [0], [0]]"
    using lstsq_column[OF responses_full_rank, of 0 "[(7.10357511, 12.61506218, 13.59695489)]"] p
    by auto
  with p show ?thesis by blast
qed

lemma notebooks_agree_in_raw_mode:
  "spectral_decompose_and_dump_jpeg_first slice stride True threshold pc raw_threshold raw_pc
     name fs
   = spectral_decompose_and_dump_jpeg colourmap_1d slice stride True threshold pc
       raw_threshold raw_pc name fs"
  by (simp add: spectral_decompose_and_dump_jpeg_first_def spectral_decompose_and_dump_jpeg_def
        Let_def split: sum.splits prod.splits)

section \<open>A worked image\<close>

lemma tile_grid_2_1_1: "tile_grid 2 1 1 = [(0, 0), (1, 0)]"
  by code_simp

lemma tile_grid_2_1_2: "tile_grid 2 1 2 = [(0, 0)]"
  by code_simp

lemma activation_example_stride_1:
  "activation cm \<lparr> nrows = 1, ncols = 2, cells = [(255, 0, 0), (0, 0, 255)] \<rparr> 1 True t (- 0.3)
     = Inr stat \<Longrightarrow> stat (0, 0) = Some 1 \<and> stat (1, 0) = Some 0"
  unfolding activation_def unmix_example
  by (auto simp: raw_statistic_def slice2_def tile_coords_def at2_def np_mean_def np_lt_def
        np_sub_def)

lemma activation_example_stride_2:
  "activation cm \<lparr> nrows = 1, ncols = 2, cells = [(255, 0, 0), (0, 0, 255)] \<rparr> 2 True t (- 0.3)
     = Inr stat \<Longrightarrow> stat (0, 0) = Some (1 / 2)"
  unfolding activation_def unmix_example
  by (auto simp: raw_statistic_def slice2_def tile_coords_def at2_def np_mean_def np_lt_def
        np_sub_def)

lemma activation_example_returns:
  "\<exists>stat. activation cm \<lparr> nrows = 1, ncols = 2, cells = [(255, 0, 0), (0, 0, 255)] \<rparr> S True t rt
     = Inr stat"
  unfolding activation_def unmix_example by simp

section \<open>Crops, statistics and densities\<close>

text \<open>
  C6. For every slide the function gets through (the slide yields an image, the stride
  is positive and the statements before the loops raise nothing), the files written are
  the crops of exactly the tiles whose activation statistic is strictly greater than the
  fraction threshold of the mode, in the order of the scan (x outer, y inner), appended
  to the files that were there; the crop written as number \<open>k\<close> is named with the
  prefix, the decimal digits of \<open>k\<close> and \<^verbatim>\<open>.jpg\<close>, the numbers start at 0 and grow by
  one per file, the names differ from each other, and there are as many files as
  included tiles; no tile is included twice. In raw mode the function of the first
  notebook is the same function (lemma \<open>notebooks_agree_in_raw_mode\<close>).
\<close>

theorem crops_follow_scan_order:
  assumes "slice 2 = Inr img" and "0 < stride"
    and "activation colourmap_1d img stride process_raw threshold raw_threshold = Inr stat"
  shows "let fraction = (if process_raw then raw_pc else pc);
             included = filter (\<lambda>tile. np_gt (stat tile) fraction)
                          (tile_grid (ncols img) (nrows img) stride);
             written = map (\<lambda>(k, (x, y)). (name @ string_of_nat k @ ''.jpg'',
                                              Jpeg (slice2 img y x stride)))
                         (List.enumerate 0 included)
         in snd (spectral_decompose_and_dump_jpeg colourmap_1d slice stride process_raw
                   threshold pc raw_threshold raw_pc name fs) = fs @ written
            \<and> length written = length included
            \<and> distinct (map fst written)
            \<and> distinct included
            \<and> sorted_wrt scan_before included"
proof -
  have "snd (spectral_decompose_and_dump_jpeg colourmap_1d slice stride process_raw
               threshold pc raw_threshold raw_pc name fs)
        = fs @ crops img stride name 0
                 (filter (\<lambda>tile. np_gt (stat tile) (if process_raw then raw_pc else pc))
                    (tile_grid (ncols img) (nrows img) stride))"
    unfolding spectral_by_activation[where slice = slice, OF assms(1,2)] assms(3) by simp
  moreover have "length (crops img stride name 0 ts) = length ts" for ts
    by (simp add: crops_def)
  moreover have "distinct (filter P (tile_grid (ncols img) (nrows img) stride))" for P
    by (intro distinct_filter distinct_tile_grid[OF assms(2)])
  moreover have "sorted_wrt scan_before (filter P (tile_grid (ncols img) (nrows img) stride))"
    for P
    by (intro sorted_wrt_filter tile_grid_scan_order[OF assms(2)])
  ultimately show ?thesis
    using crops_names_distinct[of img stride name 0]
    unfolding Let_def crops_def by simp
qed


theorem crops_follow_scan_order_witness:
  "(\<lambda>r :: real. Inr \<lparr> nrows = 1, ncols = 2, cells = [(255, 0, 0), (0, 0, 255)] \<rparr>
        :: error + vec3 array2) 2
     = Inr \<lparr> nrows = 1, ncols = 2, cells = [(255, 0, 0), (0, 0, 255)] \<rparr>
   \<and> 0 < (1 :: nat)
   \<and> (\<exists>stat. activation (\<lambda>a b F. Inl NameError)
                 \<lparr> nrows = 1, ncols = 2, cells = [(255, 0, 0), (0, 0, 255)] \<rparr>
                 1 True 0.175 (- 0.3) = Inr stat)
   \<and> snd (spectral_decompose_and_dump_jpeg (\<lambda>a b F. Inl NameError)
            (\<lambda>r. Inr \<lparr> nrows = 1, ncols = 2, cells = [(255, 0, 0), (0, 0, 255)] \<rparr>)
            1 True 0.175 0.0375 (- 0.3) 0.00125 ''p'' [])
       = [(''p0.jpg'', Jpeg \<lparr> nrows = 1, ncols = 1, cells = [(255, 0, 0)] \<rparr>)]"
proof -
  define img :: "vec3 array2" where
    "img = \<lparr> nrows = 1, ncols = 2, cells = [(255, 0, 0), (0, 0, 255)] \<rparr>"
  define cm :: "vec3 \<Rightarrow> vec3 \<Rightarrow> npfloat list \<Rightarrow> error + npfloat3 list" where
    "cm = (\<lambda>a b F. Inl NameError)"
  obtain stat where a: "activation cm img 1 True 0.175 (- 0.3) = Inr stat"
    using activation_example_returns unfolding img_def by blast
  have v: "stat (0, 0) = Some 1" "stat (1, 0) = Some 0"
    using activation_example_stride_1[OF a[unfolded img_def]] by simp_all
  have o: "(\<lambda>r :: real. Inr img :: error + vec3 array2) 2 = Inr img" by simp
  have p: "0 < (1 :: nat)" by simp
  have g: "tile_grid (ncols img) (nrows img) 1 = [(0, 0), (1, 0)]"
    by (simp only: img_def array2.select_convs tile_grid_2_1_1)
  have f: "filter (\<lambda>tile. np_gt (stat tile) (if True then 0.00125 else 0.0375)) [(0, 0), (1, 0)]
             = [(0, 0)]"
    using v by (simp add: np_gt_def)
  have c: "map (\<lambda>(k, (x, y)). (''p'' @ string_of_nat k @ ''.jpg'', Jpeg (slice2 img y x 1)))
             (List.enumerate 0 [(0, 0)])
           = [(''p0.jpg'', Jpeg \<lparr> nrows = 1, ncols = 1, cells = [(255, 0, 0)] \<rparr>)]"
    by (simp add: string_of_nat_small digit_char_def slice2_def tile_coords_def at2_def img_def)
  have "snd (spectral_decompose_and_dump_jpeg cm (\<lambda>r. Inr img) 1 True 0.175 0.0375 (- 0.3)
               0.00125 ''p'' [])
        = [(''p0.jpg'', Jpeg \<lparr> nrows = 1, ncols = 1, cells = [(255, 0, 0)] \<rparr>)]"
    using crops_follow_scan_order[where slice = "\<lambda>r. Inr img" and raw_pc = "0.00125"
            and pc = "0.0375" and name = "''p''" and fs = "[]", OF o p a,
            unfolded Let_def g f c]
    by simp
  then show ?thesis using a o p unfolding img_def cm_def by blast
qed

text \<open>
  C10. In raw mode the statistic of every tile of the grid, clipped or not, is the number
  of the tile's pixels whose raw signal is below the raw threshold divided by the number
  of pixels of the clipped tile, which is positive; the statistic lies in \<open>[0, 1]\<close>. The
  statistic of differential mode is a count divided by the square of the stride
  whatever the size of the tile.
\<close>

theorem raw_statistic_over_clipped_tile:
  assumes "0 < S" and "(x, y) \<in> set (tile_grid (ncols raw) (nrows raw) S)"
  shows "let tile = {y ..< min (y + S) (nrows raw)} \<times> {x ..< min (x + S) (ncols raw)};
             below = {p. p \<in> tile \<and> (case p of (r, c) \<Rightarrow> np_lt (at2 raw r c) raw_threshold)};
             tile3 = {y ..< min (y + S) (nrows raw3)} \<times> {x ..< min (x + S) (ncols raw3)};
             above = {p. p \<in> tile3 \<and> (case p of (r, c) \<Rightarrow>
                        (case at2 raw3 r c of (c0, c1, c2) \<Rightarrow>
                           np_gt (np_abs (np_sub c0 c2)) threshold))}
         in raw_statistic raw S raw_threshold x y = Some (real (card below) / real (card tile))
            \<and> card tile = (min (y + S) (nrows raw) - y) * (min (x + S) (ncols raw) - x)
            \<and> 0 < card tile
            \<and> 0 \<le> real (card below) / real (card tile)
            \<and> real (card below) / real (card tile) \<le> 1
            \<and> diff_statistic raw3 S threshold x y = real (card above) / real (S ^ 2)"
proof -
  define tile where "tile = {y ..< min (y + S) (nrows raw)} \<times> {x ..< min (x + S) (ncols raw)}"
  define below where
    "below = {p. p \<in> tile \<and> (case p of (r, c) \<Rightarrow> np_lt (at2 raw r c) raw_threshold)}"
  have "x < ncols raw" "y < nrows raw"
    using assms by (auto simp: set_tile_grid set_np_arange[OF assms(1)])
  then have pos: "0 < (min (y + S) (nrows raw) - y) * (min (x + S) (ncols raw) - x)"
    using assms(1) by simp
  have ct: "card tile = (min (y + S) (nrows raw) - y) * (min (x + S) (ncols raw) - x)"
    unfolding tile_def by (rule card_tile)
  have "finite tile" unfolding tile_def by simp
  moreover have "below \<subseteq> tile" unfolding below_def by auto
  ultimately have le: "card below \<le> card tile" by (rule card_mono)
  have "real (card below) \<le> real (card tile)" using le by simp
  moreover have "0 < real (card tile)" using pos ct by simp
  ultimately have frac: "real (card below) / real (card tile) \<le> 1"
    by (simp only: divide_le_eq_1_pos)
  have stat: "raw_statistic raw S raw_threshold x y = Some (real (card below) / real (card tile))"
    unfolding below_def tile_def by (rule raw_statistic_count[OF assms])
  have c0: "0 < card tile" using pos ct by simp
  have nn: "0 \<le> real (card below) / real (card tile)" by simp
  show ?thesis
    unfolding Let_def tile_def[symmetric] below_def[symmetric]
    by (intro conjI stat ct c0 nn frac diff_statistic_count)
qed

lemma tile_grid_3_1_2: "tile_grid 3 1 2 = [(0, 0), (2, 0)]"
  by code_simp

theorem raw_statistic_over_clipped_tile_witness:
  "0 < (2 :: nat)
   \<and> (2, 0) \<in> set (tile_grid (ncols \<lparr> nrows = 1, ncols = 3, cells = [Some 0, Some 0, Some (- 1)] \<rparr>)
                      (nrows \<lparr> nrows = 1, ncols = 3, cells = [Some 0, Some 0, Some (- 1)] \<rparr>) 2)
   \<and> raw_statistic \<lparr> nrows = 1, ncols = 3, cells = [Some 0, Some 0, Some (- 1)] \<rparr>
         2 (- 0.3) 2 0 = Some 1
   \<and> diff_statistic
         \<lparr> nrows = 1, ncols = 3,
           cells = [(Some 0, Some 0, Some 0), (Some 0, Some 0, Some 0), (Some 1, Some 0, Some 0)] \<rparr>
         2 0.175 2 0 = 1 / 4"
proof -
  define raw :: "npfloat array2" where
    "raw = \<lparr> nrows = 1, ncols = 3, cells = [Some 0, Some 0, Some (- 1)] \<rparr>"
  define raw3 :: "npfloat3 array2" where
    "raw3 = \<lparr> nrows = 1, ncols = 3,
              cells = [(Some 0, Some 0, Some 0), (Some 0, Some 0, Some 0), (Some 1, Some 0, Some 0)] \<rparr>"
  have p: "0 < (2 :: nat)" by simp
  have g: "(2, 0) \<in> set (tile_grid (ncols raw) (nrows raw) 2)"
    by (simp only: raw_def array2.select_convs tile_grid_3_1_2) simp
  have r: "raw_statistic raw 2 (- 0.3) 2 0 = Some 1"
    by (simp add: raw_def raw_statistic_def slice2_def tile_coords_def at2_def np_mean_def
          np_lt_def)
  have d: "diff_statistic raw3 2 0.175 2 0 = 1 / 4"
    by (simp add: raw3_def diff_statistic_def slice2_def tile_coords_def at2_def np_gt_def
          np_abs_def np_sub_def)
  have "0 < (2 :: nat) \<and> (2, 0) \<in> set (tile_grid (ncols raw) (nrows raw) 2)
        \<and> raw_statistic raw 2 (- 0.3) 2 0 = Some 1
        \<and> diff_statistic raw3 2 0.175 2 0 = 1 / 4"
    using raw_statistic_over_clipped_tile[OF p g, of "- 0.3" raw3 "0.175"]
    by (simp only: p g r d simp_thms)
  then show ?thesis unfolding raw_def raw3_def by simp
qed

lemma unmix_nonempty: "unmix img = Inr r \<Longrightarrow> cells img \<noteq> []"
  by (auto simp: unmix_def lstsq_def normalise_value_exact length_responses upt_rec
        split: sum.splits if_splits)

lemma tile_grid_nonempty:
  assumes "0 < S" "0 < W" "0 < H"
  shows "tile_grid W H S \<noteq> []"
proof -
  have "S \<le> W + S - 1" "S \<le> H + S - 1" using assms by arith+
  then have "0 < length (tile_grid W H S)"
    using assms by (simp add: length_tile_grid div_greater_zero_iff)
  then show ?thesis by auto
qed

text \<open>
  In differential mode every call of the second notebook's function ends with an
  exception and writes nothing, and so does every call of the first notebook's function
  on a slide whose image has the buffer of its shape.
\<close>

lemma differential_mode_raises:
  "\<exists>e. spectral_decompose_and_dump_jpeg colourmap_1d_unbound slice stride False threshold pc
          raw_threshold raw_pc name fs = (Inl e, fs)"
  by (auto simp: spectral_decompose_and_dump_jpeg_def colourmap_1d_unbound_def Let_def
        split: sum.splits prod.splits)

lemma differential_mode_raises_first:
  assumes "\<And>img. slice 2 = Inr img \<Longrightarrow> length (cells img) = nrows img * ncols img"
  shows "\<exists>e. spectral_decompose_and_dump_jpeg_first slice stride False threshold pc
          raw_threshold raw_pc name fs = (Inl e, fs)"
proof (cases "slice 2")
  case (Inl e)
  then show ?thesis by (simp add: spectral_decompose_and_dump_jpeg_first_def)
next
  case (Inr img)
  note wf = assms[OF Inr]
  show ?thesis
  proof (cases "stride = 0")
    case True
    then show ?thesis using Inr by (simp add: spectral_decompose_and_dump_jpeg_first_def Let_def)
  next
    case False
    show ?thesis
    proof (cases "unmix img")
      case (Inl e)
      then show ?thesis using Inr False
        by (simp add: spectral_decompose_and_dump_jpeg_first_def Let_def)
    next
      case u: (Inr r)
      obtain DAB BT where r: "r = (DAB, BT)" by (cases r)
      have "cells img \<noteq> []" using u by (rule unmix_nonempty)
      then have "0 < nrows img \<and> 0 < ncols img"
        using wf by (cases "nrows img"; cases "ncols img") simp_all
      then have "tile_grid (ncols img) (nrows img) stride \<noteq> []"
        using False by (intro tile_grid_nonempty) simp_all
      then show ?thesis using Inr False u r
        by (simp add: spectral_decompose_and_dump_jpeg_first_def Let_def)
    qed
  qed
qed

text \<open>
  C4: the code does not do what the claim says. In differential mode neither notebook
  gets to test a tile. The second notebook calls \<^verbatim>\<open>colourmap_1d\<close>, a name that no cell
  defines or imports, and the call raises NameError; the first notebook takes
  \<^verbatim>\<open>section[:, :, 0]\<close> of a section of two dimensions and raises IndexError at its first
  tile. On the image of one row with a red and a blue pixel and stride 1, where the two
  tiles are whole tiles of one pixel, both calls end with these exceptions and no crop
  is written.
\<close>

theorem differential_mode_raises_example:
  "spectral_decompose_and_dump_jpeg colourmap_1d_unbound
     (\<lambda>r. Inr \<lparr> nrows = 1, ncols = 2, cells = [(255, 0, 0), (0, 0, 255)] \<rparr>)
     1 False 0.175 0.0375 (- 0.3) 0.00125 ''p'' []
   = (Inl NameError, [])
   \<and> spectral_decompose_and_dump_jpeg_first
       (\<lambda>r. Inr \<lparr> nrows = 1, ncols = 2, cells = [(255, 0, 0), (0, 0, 255)] \<rparr>)
       1 False 0.175 0.0375 (- 0.3) 0.00125 ''p'' []
     = (Inl IndexError, [])
   \<and> tile_grid 2 1 1 = [(0, 0), (1, 0)]"
proof -
  define img :: "vec3 array2" where
    "img = \<lparr> nrows = 1, ncols = 2, cells = [(255, 0, 0), (0, 0, 255)] \<rparr>"
  obtain DAB BT where u: "unmix img = Inr (DAB, BT)"
    unfolding img_def unmix_example by blast
  have g: "tile_grid (ncols img) (nrows img) 1 \<noteq> []"
    using tile_grid_2_1_1 by (simp add: img_def)
  have 1: "spectral_decompose_and_dump_jpeg colourmap_1d_unbound (\<lambda>r. Inr img)
             1 False 0.175 0.0375 (- 0.3) 0.00125 ''p'' [] = (Inl NameError, [])"
    using u by (simp add: spectral_decompose_and_dump_jpeg_def colourmap_1d_unbound_def Let_def)
  have 2: "spectral_decompose_and_dump_jpeg_first (\<lambda>r. Inr img)
             1 False 0.175 0.0375 (- 0.3) 0.00125 ''p'' [] = (Inl IndexError, [])"
    using u g by (simp add: spectral_decompose_and_dump_jpeg_first_def Let_def)
  show ?thesis using 1 2 tile_grid_2_1_1 unfolding img_def by simp
qed

text \<open>
  C1: the code does not do what the claim says. On the image of one row with a red and a
  blue pixel and stride 2 there is one tile; its activation statistic is \<open>1 / 2\<close> (the
  crop is written), and the cell of the returned density map is \<open>0\<close>: the array is
  returned as \<^verbatim>\<open>np.zeros\<close> created it.
\<close>

theorem densities_stay_zero_example:
  "spectral_decompose_and_dump_jpeg (\<lambda>a b F. Inl NameError)
     (\<lambda>r. Inr \<lparr> nrows = 1, ncols = 2, cells = [(255, 0, 0), (0, 0, 255)] \<rparr>)
     2 True 0.175 0.0375 (- 0.3) 0.00125 ''p'' []
   = (Inr \<lparr> nrows = 1, ncols = 1, cells = [0] \<rparr>,
      [(''p0.jpg'', Jpeg \<lparr> nrows = 1, ncols = 2, cells = [(255, 0, 0), (0, 0, 255)] \<rparr>)])
   \<and> (\<exists>stat. activation (\<lambda>a b F. Inl NameError)
                 \<lparr> nrows = 1, ncols = 2, cells = [(255, 0, 0), (0, 0, 255)] \<rparr>
                 2 True 0.175 (- 0.3) = Inr stat
               \<and> stat (0, 0) = Some (1 / 2))"
proof -
  define img :: "vec3 array2" where
    "img = \<lparr> nrows = 1, ncols = 2, cells = [(255, 0, 0), (0, 0, 255)] \<rparr>"
  define cm :: "vec3 \<Rightarrow> vec3 \<Rightarrow> npfloat list \<Rightarrow> error + npfloat3 list" where
    "cm = (\<lambda>a b F. Inl NameError)"
  obtain stat where a: "activation cm img 2 True 0.175 (- 0.3) = Inr stat"
    using activation_example_returns unfolding img_def by blast
  have v: "stat (0, 0) = Some (1 / 2)"
    using activation_example_stride_2[OF a[unfolded img_def]] .
  have o: "(\<lambda>r :: real. Inr img :: error + vec3 array2) 2 = Inr img" by simp
  have p: "0 < (2 :: nat)" by simp
  have g: "tile_grid (ncols img) (nrows img) 2 = [(0, 0)]"
    by (simp only: img_def array2.select_convs tile_grid_2_1_2)
  have f: "filter (\<lambda>t. np_gt (stat t) (if True then 0.00125 else 0.0375)) [(0, 0)] = [(0, 0)]"
    using v by (simp add: np_gt_def)
  have c: "crops img 2 ''p'' 0 [(0, 0)] = [(''p0.jpg'', Jpeg img)]"
    by (simp add: crops_def string_of_nat_small digit_char_def slice2_def tile_coords_def
          at2_def img_def)
  have z: "\<lparr> nrows = (nrows img + 2 - 1) div 2, ncols = (ncols img + 2 - 1) div 2,
             cells = replicate (((nrows img + 2 - 1) div 2) * ((ncols img + 2 - 1) div 2)) 0 \<rparr>
           = \<lparr> nrows = 1, ncols = 1, cells = [0 :: real] \<rparr>"
    by (simp add: img_def)
  have "spectral_decompose_and_dump_jpeg cm (\<lambda>r. Inr img) 2 True 0.175 0.0375 (- 0.3)
          0.00125 ''p'' []
        = (Inr \<lparr> nrows = (nrows img + 2 - 1) div 2, ncols = (ncols img + 2 - 1) div 2,
                  cells = replicate (((nrows img + 2 - 1) div 2) * ((ncols img + 2 - 1) div 2)) 0 \<rparr>,
           [] @ crops img 2 ''p'' 0
                  (filter (\<lambda>t. np_gt (stat t) (if True then 0.00125 else 0.0375))
                     (tile_grid (ncols img) (nrows img) 2)))"
    by (simp only: spectral_by_activation[where slice = "\<lambda>r. Inr img", OF o p] a sum.case)
  then have "spectral_decompose_and_dump_jpeg cm (\<lambda>r. Inr img) 2 True 0.175 0.0375 (- 0.3)
          0.00125 ''p'' [] = (Inr \<lparr> nrows = 1, ncols = 1, cells = [0] \<rparr>, [(''p0.jpg'', Jpeg img)])"
    unfolding g f c z by simp
  then show ?thesis using a v unfolding img_def cm_def by blast
qed

section \<open>The batch\<close>

lemma pqdm_append:
  "pqdm (xs @ ys) f fs =
     (case pqdm xs f fs of
        (Inl e, fs1) \<Rightarrow> (Inl e, fs1)
      | (Inr rs1, fs1) \<Rightarrow>
          (case pqdm ys f fs1 of
             (Inl e, fs2) \<Rightarrow> (Inl e, fs2)
           | (Inr rs2, fs2) \<Rightarrow> (Inr (rs1 @ rs2), fs2)))"
  by (induction xs arbitrary: fs) (simp_all split: prod.splits sum.splits)

lemma process_entry:
  "fst (process env config b fs) = Inr p \<Longrightarrow> p = slide_file b"
  by (auto simp: process_def Let_def split: sum.splits prod.splits if_splits)

lemma pqdm_report:
  "pqdm batch (process env config) fs = (Inr rs, fs') \<Longrightarrow> rs = map slide_file batch"
proof (induction batch arbitrary: fs rs)
  case Nil
  then show ?case by simp
next
  case (Cons b batch)
  obtain r fs1 where b: "process env config b fs = (r, fs1)" by (cases "process env config b fs")
  obtain q fs2 where q: "pqdm batch (process env config) fs1 = (q, fs2)"
    by (cases "pqdm batch (process env config) fs1")
  from Cons.prems b obtain p where r: "r = Inr p" by (cases r) simp_all
  from Cons.prems b q r obtain ps where ps: "q = Inr ps" by (cases q) simp_all
  have "p = slide_file b" using process_entry[of env config b fs p] b r by simp
  moreover have "ps = map slide_file batch" using Cons.IH[of fs1 ps] q ps Cons.prems b r by simp
  moreover have "rs = p # ps" using Cons.prems b q r ps by simp
  ultimately show ?case by simp
qed

lemma process_opened:
  assumes "(if \<not> sim a then AperioSlide env (slide_file a) else SyntheticSlide env (slide_file a))
             = Inr slide"
    and "slide 2 = Inr img" and "0 < map_stride config"
    and "activation (colourmap env) img (map_stride config) True 0.175 (- 0.3) = Inr stat"
  shows "fst (process env config a fs) = Inr (slide_file a)"
  using assms(1,4)
  by (simp add: process_def Let_def spectral_by_activation[where slice = slide, OF assms(2,3)])

text \<open>
  C2, as amended. When the constructor of a slide raises, process writes no file and
  returns the path of the slide. The batch with that slide ends as the batch without it:
  with the same exception and the same files when a call for another slide raises, and
  otherwise with the same files and a report. A report is the list of the paths of the
  slides of the batch, whichever of them failed to open: the path of the failed slide
  stands in it like the path of a slide that was processed.
\<close>

theorem failed_open_is_reported_like_success:
  assumes "(if \<not> sim a then AperioSlide env (slide_file a) else SyntheticSlide env (slide_file a))
             = Inl e"
  shows "process env config a fs = (Inr (slide_file a), fs)
         \<and> pqdm (before @ a # after) (process env config) fs
             = (case pqdm (before @ after) (process env config) fs of
                  (Inl e', fs') \<Rightarrow> (Inl e', fs')
                | (Inr rs, fs') \<Rightarrow> (Inr (map slide_file (before @ a # after)), fs'))
         \<and> (\<forall>batch fs0 rs fs'.
               pqdm batch (process env config) fs0 = (Inr rs, fs') \<longrightarrow> rs = map slide_file batch)"
proof -
  have p: "process env config a fs' = (Inr (slide_file a), fs')" for fs'
    using assms by (simp add: process_def Let_def)
  obtain r1 fs1 where b: "pqdm before (process env config) fs = (r1, fs1)"
    by (cases "pqdm before (process env config) fs")
  obtain r2 fs2 where c: "pqdm after (process env config) fs1 = (r2, fs2)"
    by (cases "pqdm after (process env config) fs1")
  have 2: "pqdm (before @ a # after) (process env config) fs
             = (case pqdm (before @ after) (process env config) fs of
                  (Inl e', fs') \<Rightarrow> (Inl e', fs')
                | (Inr rs, fs') \<Rightarrow> (Inr (map slide_file (before @ a # after)), fs'))"
  proof (cases r1)
    case (Inl e1)
    then show ?thesis using b by (simp add: pqdm_append)
  next
    case r1: (Inr rs1)
    have rs1: "rs1 = map slide_file before" using pqdm_report b r1 by blast
    show ?thesis
    proof (cases r2)
      case (Inl e2)
      then show ?thesis using b c r1 by (simp add: pqdm_append p)
    next
      case r2: (Inr rs2)
      have "rs2 = map slide_file after" using pqdm_report c r2 by blast
      then show ?thesis using b c r1 r2 rs1 by (simp add: pqdm_append p)
    qed
  qed
  have 3: "\<forall>batch fs0 rs fs'.
             pqdm batch (process env config) fs0 = (Inr rs, fs') \<longrightarrow> rs = map slide_file batch"
    using pqdm_report by blast
  show ?thesis using p[of fs] 2 3 by (intro conjI)
qed

theorem failed_open_is_reported_like_success_witness:
  "(if \<not> sim \<lparr> slide_file = ''a.svs'', condition = ''PD'', sim = False \<rparr>
    then AperioSlide \<lparr> AperioSlide = (\<lambda>f. Inl SlideOpenError),
                       SyntheticSlide = (\<lambda>f. Inl SlideOpenError),
                       basename_normpath = (\<lambda>f. f),
                       colourmap = (\<lambda>a b F. Inl NameError) \<rparr>
           (slide_file \<lparr> slide_file = ''a.svs'', condition = ''PD'', sim = False \<rparr>)
    else SyntheticSlide \<lparr> AperioSlide = (\<lambda>f. Inl SlideOpenError),
                          SyntheticSlide = (\<lambda>f. Inl SlideOpenError),
                          basename_normpath = (\<lambda>f. f),
                          colourmap = (\<lambda>a b F. Inl NameError) \<rparr>
           (slide_file \<lparr> slide_file = ''a.svs'', condition = ''PD'', sim = False \<rparr>))
     = (Inl SlideOpenError :: error + slide)
   \<and> pqdm [\<lparr> slide_file = ''a.svs'', condition = ''PD'', sim = False \<rparr>]
        (process \<lparr> AperioSlide = (\<lambda>f. Inl SlideOpenError),
                   SyntheticSlide = (\<lambda>f. Inl SlideOpenError),
                   basename_normpath = (\<lambda>f. f),
                   colourmap = (\<lambda>a b F. Inl NameError) \<rparr>
                 \<lparr> dump_path = ''/d'', map_stride = 512 \<rparr>) []
       = (Inr [''a.svs''], [])"
proof -
  define a where "a = \<lparr> slide_file = ''a.svs'', condition = ''PD'', sim = False \<rparr>"
  define env where
    "env = \<lparr> AperioSlide = (\<lambda>f :: string. Inl SlideOpenError :: error + slide),
             SyntheticSlide = (\<lambda>f :: string. Inl SlideOpenError :: error + slide),
             basename_normpath = (\<lambda>f :: string. f),
             colourmap = (\<lambda>(a :: vec3) (b :: vec3) (F :: npfloat list).
                            Inl NameError :: error + npfloat3 list) \<rparr>"
  have h: "(if \<not> sim a then AperioSlide env (slide_file a) else SyntheticSlide env (slide_file a))
             = Inl SlideOpenError"
    by (simp add: a_def env_def)
  have "pqdm [a] (process env \<lparr> dump_path = ''/d'', map_stride = 512 \<rparr>) [] = (Inr [''a.svs''], [])"
    using failed_open_is_reported_like_success[OF h, of "\<lparr> dump_path = ''/d'', map_stride = 512 \<rparr>" "[]" "[]" "[]"]
    by (simp add: a_def)
  then show ?thesis using h unfolding a_def env_def by simp
qed

text \<open>
  C2 as stated fails in its last part: the report of a batch in which the first slide
  fails to open is the report of the same batch when both slides are processed.
\<close>

theorem report_hides_failed_open_counterexample:
  "AperioSlide \<lparr> AperioSlide = (\<lambda>f. Inl SlideOpenError),
                 SyntheticSlide = (\<lambda>f. Inr (\<lambda>r. Inr \<lparr> nrows = 1, ncols = 2,
                                                      cells = [(255, 0, 0), (0, 0, 255)] \<rparr>)),
                 basename_normpath = (\<lambda>f. f),
                 colourmap = (\<lambda>a b F. Inl NameError) \<rparr> ''a.svs''
     = (Inl SlideOpenError :: error + slide)
   \<and> fst (pqdm [\<lparr> slide_file = ''a.svs'', condition = ''PD'', sim = False \<rparr>,
                \<lparr> slide_file = ''b.png'', condition = ''PD'', sim = True \<rparr>]
           (process \<lparr> AperioSlide = (\<lambda>f. Inl SlideOpenError),
                      SyntheticSlide = (\<lambda>f. Inr (\<lambda>r. Inr \<lparr> nrows = 1, ncols = 2,
                                                           cells = [(255, 0, 0), (0, 0, 255)] \<rparr>)),
                      basename_normpath = (\<lambda>f. f),
                      colourmap = (\<lambda>a b F. Inl NameError) \<rparr>
                    \<lparr> dump_path = ''/d'', map_stride = 512 \<rparr>) [])
       = Inr [''a.svs'', ''b.png'']
   \<and> fst (pqdm [\<lparr> slide_file = ''a.svs'', condition = ''PD'', sim = False \<rparr>,
                \<lparr> slide_file = ''b.png'', condition = ''PD'', sim = True \<rparr>]
           (process \<lparr> AperioSlide = (\<lambda>f. Inr (\<lambda>r. Inr \<lparr> nrows = 1, ncols = 2,
                                                        cells = [(255, 0, 0), (0, 0, 255)] \<rparr>)),
                      SyntheticSlide = (\<lambda>f. Inr (\<lambda>r. Inr \<lparr> nrows = 1, ncols = 2,
                                                           cells = [(255, 0, 0), (0, 0, 255)] \<rparr>)),
                      basename_normpath = (\<lambda>f. f),
                      colourmap = (\<lambda>a b F. Inl NameError) \<rparr>
                    \<lparr> dump_path = ''/d'', map_stride = 512 \<rparr>) [])
       = Inr [''a.svs'', ''b.png'']"
proof -
  define img :: "vec3 array2" where
    "img = \<lparr> nrows = 1, ncols = 2, cells = [(255, 0, 0), (0, 0, 255)] \<rparr>"
  define good :: "string \<Rightarrow> error + slide" where "good = (\<lambda>f. Inr (\<lambda>r. Inr img))"
  define bad :: "string \<Rightarrow> error + slide" where "bad = (\<lambda>f. Inl SlideOpenError)"
  define cm :: "vec3 \<Rightarrow> vec3 \<Rightarrow> npfloat list \<Rightarrow> error + npfloat3 list" where
    "cm = (\<lambda>a b F. Inl NameError)"
  define env1 where
    "env1 = \<lparr> AperioSlide = bad, SyntheticSlide = good, basename_normpath = (\<lambda>f :: string. f),
              colourmap = cm \<rparr>"
  define env2 where
    "env2 = \<lparr> AperioSlide = good, SyntheticSlide = good, basename_normpath = (\<lambda>f :: string. f),
              colourmap = cm \<rparr>"
  define cfg where "cfg = \<lparr> dump_path = ''/d'', map_stride = 512 \<rparr>"
  define a where "a = \<lparr> slide_file = ''a.svs'', condition = ''PD'', sim = False \<rparr>"
  define b where "b = \<lparr> slide_file = ''b.png'', condition = ''PD'', sim = True \<rparr>"
  obtain stat where act: "activation cm img 512 True 0.175 (- 0.3) = Inr stat"
    using activation_example_returns unfolding img_def by blast
  have ok: "fst (process env config d fs) = Inr (slide_file d)"
    if "(if \<not> sim d then AperioSlide env (slide_file d) else SyntheticSlide env (slide_file d))
          = good (slide_file d)" "colourmap env = cm" "map_stride config = 512"
    for env config d fs
    using process_opened[of d env "\<lambda>r. Inr img" img config stat fs] that act
    by (simp add: good_def)
  have a1: "fst (process env1 cfg a fs) = Inr ''a.svs''" for fs
    by (simp add: process_def env1_def a_def bad_def)
  have b1: "fst (process env1 cfg b fs) = Inr ''b.png''" for fs
    using ok[of b env1 cfg fs] by (simp add: env1_def b_def cfg_def)
  have a2: "fst (process env2 cfg a fs) = Inr ''a.svs''" for fs
    using ok[of a env2 cfg fs] by (simp add: env2_def a_def cfg_def)
  have b2: "fst (process env2 cfg b fs) = Inr ''b.png''" for fs
    using ok[of b env2 cfg fs] by (simp add: env2_def b_def cfg_def)
  have two: "fst (pqdm [a, b] f []) = Inr [ra, rb]"
    if "fst (f a []) = Inr ra" "fst (f b (snd (f a []))) = Inr rb"
    for f :: "argv \<Rightarrow> files \<Rightarrow> (error + string) \<times> files" and ra rb
    using that by (auto split: prod.splits sum.splits)
  have "AperioSlide env1 ''a.svs'' = Inl SlideOpenError" by (simp add: env1_def bad_def)
  moreover have "fst (pqdm [a, b] (process env1 cfg) []) = Inr [''a.svs'', ''b.png'']"
    by (rule two[OF a1 b1])
  moreover have "fst (pqdm [a, b] (process env2 cfg) []) = Inr [''a.svs'', ''b.png'']"
    by (rule two[OF a2 b2])
  ultimately show ?thesis
    unfolding env1_def env2_def cfg_def a_def b_def good_def bad_def cm_def img_def by simp
qed

end
